theory Spec2Isabelle
  imports Main
begin

section \<open>The proxy pool: class ProxyManager of core/proxy.py\<close>

text \<open>
  Python exceptions are values. A method that can raise returns a pair: the outcome
  (\<open>Inl\<close> the exception, \<open>Inr\<close> the returned value) and the object as the call
  left it, because the attributes assigned before a raise stay assigned.
  \<open>OtherError\<close> carries \<open>str(e)\<close> of an exception raised outside the code
  modelled here: by a remote call or by a parsing helper.
\<close>

datatype error = IndexError | TypeError | OtherError string

text \<open>
  The attributes of a ProxyManager. \<open>failed\<close> is the dict from proxy to failure
  count, \<open>pool\<close> the contents of the Queue (it is only ever put to), and
  \<open>refreshing\<close> the attribute \<open>_refreshing\<close>, which does not exist
  (\<open>None\<close>) until \<open>auto_refresh\<close> first assigns it.
\<close>

record proxy_manager =
  proxies :: "string list"
  failed :: "string \<Rightarrow> int option"
  idx :: nat
  pool :: "string list"
  is_ready :: bool
  allow_direct :: bool
  refreshing :: "bool option"

text \<open>\<open>ProxyManager.__init__(allow_direct)\<close>.\<close>

definition init_proxy_manager :: "bool \<Rightarrow> proxy_manager" where
  "init_proxy_manager direct =
     \<lparr>proxies = [], failed = Map.empty, idx = 0, pool = [], is_ready = False,
      allow_direct = direct, refreshing = None\<rparr>"

text \<open>\<open>self.failed.get(p, 0)\<close>.\<close>

definition failed_get :: "(string \<Rightarrow> int option) \<Rightarrow> string \<Rightarrow> int" where
  "failed_get m p = (case m p of None \<Rightarrow> 0 | Some c \<Rightarrow> c)"

text \<open>\<open>add_proxy\<close>: a non-empty string that is not yet in the list is appended.\<close>

definition add_proxy :: "string \<Rightarrow> proxy_manager \<Rightarrow> proxy_manager" where
  "add_proxy proxy pm =
     (if proxy \<noteq> [] \<and> proxy \<notin> set (proxies pm)
      then pm\<lparr>proxies := proxies pm @ [proxy], pool := pool pm @ [proxy]\<rparr>
      else pm)"

text \<open>
  The rotation loop of \<open>get_proxy\<close>, \<open>for _ in range(len(self.proxies))\<close>, with the
  number of iterations left as first argument. \<open>self.proxies[self.idx]\<close> raises
  IndexError when the cursor is not below the length; the cursor is never negative.
\<close>

fun get_proxy_loop :: "nat \<Rightarrow> proxy_manager \<Rightarrow> (error + string option) \<times> proxy_manager" where
  "get_proxy_loop 0 pm = (Inr None, pm)"
| "get_proxy_loop (Suc n) pm =
     (if idx pm < length (proxies pm) then
        (let proxy = proxies pm ! idx pm;
             pm' = pm\<lparr>idx := (idx pm + 1) mod length (proxies pm)\<rparr>
         in if failed_get (failed pm') proxy < 3 then (Inr (Some proxy), pm')
            else get_proxy_loop n pm')
      else (Inl IndexError, pm))"

definition get_proxy :: "proxy_manager \<Rightarrow> (error + string option) \<times> proxy_manager" where
  "get_proxy pm =
     (if proxies pm = [] then (Inr None, pm)
      else
        (let pm1 = (if proxies pm \<noteq> [] \<and> list_all (\<lambda>p. 3 \<le> failed_get (failed pm) p) (proxies pm)
                    then pm\<lparr>failed := Map.empty\<rparr> else pm)
         in get_proxy_loop (length (proxies pm1)) pm1))"

text \<open>The loop of \<open>get_next_proxy\<close>; \<open>current_proxy\<close> is an \<open>Optional[str]\<close>.\<close>

fun get_next_loop :: "nat \<Rightarrow> string option \<Rightarrow> proxy_manager \<Rightarrow> (error + string option) \<times> proxy_manager" where
  "get_next_loop 0 current_proxy pm = (Inr None, pm)"
| "get_next_loop (Suc n) current_proxy pm =
     (if idx pm < length (proxies pm) then
        (let proxy = proxies pm ! idx pm;
             pm' = pm\<lparr>idx := (idx pm + 1) mod length (proxies pm)\<rparr>
         in if Some proxy \<noteq> current_proxy \<and> failed_get (failed pm') proxy < 3
            then (Inr (Some proxy), pm')
            else get_next_loop n current_proxy pm')
      else (Inl IndexError, pm))"

definition get_next_proxy :: "string option \<Rightarrow> proxy_manager \<Rightarrow> (error + string option) \<times> proxy_manager" where
  "get_next_proxy current_proxy pm =
     (if proxies pm = [] then (Inr None, pm)
      else if length (proxies pm) = 1 then
        (Inr (if failed_get (failed pm) (proxies pm ! 0) < 3 then Some (proxies pm ! 0) else None), pm)
      else
        (case get_next_loop (length (proxies pm)) current_proxy pm of
           (Inl e, pm') \<Rightarrow> (Inl e, pm')
         | (Inr (Some proxy), pm') \<Rightarrow> (Inr (Some proxy), pm')
         | (Inr None, pm') \<Rightarrow>
             (Inr (if 3 \<le> failed_get (failed pm') (proxies pm' ! 0) then None
                   else Some (proxies pm' ! 0)), pm')))"

text \<open>
  \<open>mark_failed\<close> and \<open>mark_success\<close> are called with \<open>self.config.proxy\<close>, which
  may be \<open>None\<close>; \<open>if proxy\<close> is false for \<open>None\<close> and for the empty string.
\<close>

definition truthy_str :: "string option \<Rightarrow> bool" where
  "truthy_str p = (case p of None \<Rightarrow> False | Some s \<Rightarrow> s \<noteq> [])"

definition mark_failed :: "string option \<Rightarrow> proxy_manager \<Rightarrow> proxy_manager" where
  "mark_failed proxy pm =
     (case proxy of
        None \<Rightarrow> pm
      | Some s \<Rightarrow> if s \<noteq> [] then pm\<lparr>failed := (failed pm)(s \<mapsto> failed_get (failed pm) s + 1)\<rparr> else pm)"

definition mark_success :: "string option \<Rightarrow> proxy_manager \<Rightarrow> proxy_manager" where
  "mark_success proxy pm =
     (case proxy of
        None \<Rightarrow> pm
      | Some s \<Rightarrow>
          (case failed pm s of
             None \<Rightarrow> pm
           | Some c \<Rightarrow> if s \<noteq> [] then pm\<lparr>failed := (failed pm)(s \<mapsto> max 0 (c - 1))\<rparr> else pm))"

text \<open>
  \<open>auto_refresh(count)\<close>: the second component is the thread started by the call,
  given by the argument of its \<open>_refresh_background\<close>, or \<open>None\<close> when the call
  returned before starting one.
\<close>

definition auto_refresh :: "int \<Rightarrow> proxy_manager \<Rightarrow> proxy_manager \<times> int option" where
  "auto_refresh count pm =
     (if refreshing pm = Some True then (pm, None)
      else (pm\<lparr>refreshing := Some True\<rparr>, Some count))"

text \<open>
  \<open>_refresh_background(count)\<close>. What the network answers is an argument:
  \<^item> \<open>fetched\<close> is the list \<open>collected\<close> that the fetch phase leaves, already in
    the order \<open>list(set(collected))\<close> gives it, or \<open>None\<close> when the phase raised
    (the timeout of \<open>as_completed\<close>);
  \<^item> \<open>validate_first cs\<close> is the list \<open>valid\<close> that the first validation wave
    builds from the candidates \<open>cs\<close>, in order of completion, or \<open>None\<close> when the
    wave raised;
  \<^item> \<open>validate_more cs\<close> is the same for the second wave and \<open>more_valid\<close>.
  An exception reaches the handler, which only logs; \<open>finally\<close> clears
  \<open>_refreshing\<close> on every path.
\<close>

definition refresh_background ::
  "string list option \<Rightarrow> (string list \<Rightarrow> string list option) \<Rightarrow> (string list \<Rightarrow> string list option)
     \<Rightarrow> int \<Rightarrow> proxy_manager \<Rightarrow> proxy_manager" where
  "refresh_background fetched validate_first validate_more count pm =
     (let done = (\<lambda>p. p\<lparr>refreshing := Some False\<rparr>) in
      case fetched of
        None \<Rightarrow> done pm
      | Some collected \<Rightarrow>
          if collected = [] then done (pm\<lparr>is_ready := True\<rparr>)
          else
            (let test_count = min 20 (length collected) in
             case validate_first (take test_count collected) of
               None \<Rightarrow> done pm
             | Some valid \<Rightarrow>
                 if 5 \<le> length valid then
                   done (pm\<lparr>proxies := valid, pool := pool pm @ valid, is_ready := True\<rparr>)
                 else if 1 \<le> length valid then
                   (let remaining = filter (\<lambda>p. p \<notin> set valid) collected in
                    case validate_more (take 50 remaining) of
                      None \<Rightarrow> done pm
                    | Some more_valid \<Rightarrow>
                        done (pm\<lparr>proxies := valid @ more_valid,
                                  pool := pool pm @ valid @ more_valid, is_ready := True\<rparr>))
                 else
                   done ((if allow_direct pm then pm\<lparr>proxies := []\<rparr> else pm)\<lparr>is_ready := True\<rparr>)))"

text \<open>
  The invariant of the data model: the cursor is an index of the proxy sequence. The
  pool as constructed, with no proxy and the cursor at 0, is included.
\<close>

definition cursor_ok :: "proxy_manager \<Rightarrow> bool" where
  "cursor_ok pm = (proxies pm = [] \<and> idx pm = 0 \<or> idx pm < length (proxies pm))"

section \<open>Responses and results: models/search.py\<close>

text \<open>
  \<open>SearchResult\<close>, and with it an entry of \<open>assets\<close>: every response of this
  program holds the \<open>model_dump()\<close> of SearchResult objects there.
\<close>

record search_result =
  link :: string
  host :: string
  port :: int
  title :: string
  ip :: string
  city :: string
  asn :: string
  organization :: string
  server :: string
  mtime :: string

text \<open>
  The value under the key \<open>total\<close>, as \<open>search_all\<close> reads it: \<open>NoTotal\<close> is
  \<open>None\<close> (or another falsy value that is not a number), \<open>IntTotal\<close> an integer,
  \<open>NonNumericTotal\<close> a truthy value that the comparison with an integer rejects
  (a string, a list, a dict). A number that is not an integer is outside the model.
\<close>

datatype total_value = NoTotal | IntTotal int | NonNumericTotal

text \<open>
  The dict \<open>data\<close> of a FofaResponse is built in three places, each time either as
  \<open>{}\<close> or with the keys \<open>assets\<close>, \<open>total\<close> and \<open>page\<close>; \<open>None\<close> below is the
  empty dict.
\<close>

record page_data =
  assets :: "search_result list"
  reported_total :: total_value
  page_number :: int

record fofa_response =
  code :: int
  message :: string
  data :: "page_data option"

section \<open>Text predicates\<close>

text \<open>
  Strings are the UTF-8 bytes of the Python text. \<open>x in s\<close> on Python strings and on
  their UTF-8 encodings agree. \<open>lower\<close> maps the letters A to Z; \<open>str.lower\<close> also
  maps letters outside ASCII, but never to a text in which one of the markers below
  appears where the byte-wise function finds none.
\<close>

fun contains_str :: "string \<Rightarrow> string \<Rightarrow> bool" where
  "contains_str x [] = (x = [])"
| "contains_str x (c # s) = (take (length x) (c # s) = x \<or> contains_str x s)"

definition lower_char :: "char \<Rightarrow> char" where
  "lower_char c =
     (case map_of (zip ''ABCDEFGHIJKLMNOPQRSTUVWXYZ'' ''abcdefghijklmnopqrstuvwxyz'') c of
        None \<Rightarrow> c | Some d \<Rightarrow> d)"

definition lower :: "string \<Rightarrow> string" where
  "lower s = map lower_char s"

text \<open>The Chinese markers of the two ban predicates, in UTF-8.\<close>

definition abnormal_access :: string where
  "abnormal_access = [CHR 0xE8, CHR 0xAE, CHR 0xBF, CHR 0xE9, CHR 0x97, CHR 0xAE,
                      CHR 0xE5, CHR 0xBC, CHR 0x82, CHR 0xE5, CHR 0xB8, CHR 0xB8]"

definition crawler :: string where
  "crawler = [CHR 0xE7, CHR 0x88, CHR 0xAC, CHR 0xE8, CHR 0x99, CHR 0xAB]"

definition access_forbidden :: string where
  "access_forbidden = [CHR 0xE7, CHR 0xA6, CHR 0x81, CHR 0xE6, CHR 0xAD, CHR 0xA2,
                       CHR 0xE8, CHR 0xAE, CHR 0xBF, CHR 0xE9, CHR 0x97, CHR 0xAE]"

definition verification_code :: string where
  "verification_code = [CHR 0xE9, CHR 0xAA, CHR 0x8C, CHR 0xE8, CHR 0xAF, CHR 0x81,
                        CHR 0xE7, CHR 0xA0, CHR 0x81]"

text \<open>
  \<open>_is_ban_response(response.model_dump())\<close>. The dump has the three keys of the
  model, so the first test of the method, \<open>if not data\<close>, is never true of it.
\<close>

definition is_ban_response :: "fofa_response \<Rightarrow> bool" where
  "is_ban_response r =
     (if code r = - 3000 then True
      else if code r = 850100 then True
      else (let msg = lower (message r)
            in list_ex (\<lambda>x. contains_str x msg)
                 [''ip'' @ abnormal_access, crawler, access_forbidden, abnormal_access,
                  verification_code]))"

text \<open>\<open>_is_ban_html(html)\<close>.\<close>

definition is_ban_html :: "string \<Rightarrow> bool" where
  "is_ban_html html =
     (if html = [] then True
      else if contains_str ''captcha'' (lower html) \<or> contains_str ''/captcha'' html then True
      else list_ex (\<lambda>x. contains_str x html)
             [''[-3000]'', ''IP'' @ abnormal_access, crawler, access_forbidden, abnormal_access])"

section \<open>The engine: class UnifiedFofaClient of core/unified_client.py\<close>

datatype access_mode = API | WEB | AUTO

text \<open>The two fields of SearchConfig that the engine reads or assigns.\<close>

record search_config =
  end_count :: int
  proxy :: "string option"

text \<open>
  A request sent through one of the two access clients: the proxy the client was built
  with, the query and the page.
\<close>

datatype request =
  ApiRequest "string option" string int
| WebRequest "string option" string int

text \<open>
  The attributes of the engine. \<open>cached_api_client\<close> and \<open>cached_web_client\<close> are
  \<open>_api_client\<close> and \<open>_web_client\<close>: \<open>None\<close>, or the client, which is determined by
  the proxy in the copy of the configuration it was built with. \<open>failed_count\<close> is the
  counter \<open>failed\<close>. \<open>requests\<close> is no attribute: it is the trace of the requests
  sent so far.
\<close>

record client =
  config :: search_config
  mode :: access_mode
  proxy_manager :: proxy_manager
  cached_api_client :: "string option option"
  cached_web_client :: "string option option"
  total :: nat
  success :: nat
  failed_count :: nat
  ban_count :: nat
  requests :: "request list"

text \<open>
  \<open>UnifiedFofaClient.__init__(config, proxies)\<close> without the start of the refresh
  thread, which is \<open>auto_refresh\<close> on the pool.
\<close>

definition init_client :: "search_config \<Rightarrow> string list \<Rightarrow> client" where
  "init_client cfg ps =
     \<lparr>config = cfg, mode = AUTO,
      proxy_manager = fold add_proxy ps (init_proxy_manager True),
      cached_api_client = None, cached_web_client = None,
      total = 0, success = 0, failed_count = 0, ban_count = 0, requests = []\<rparr>"

text \<open>
  What is outside the program. The first argument of \<open>api_search\<close> and of
  \<open>make_request\<close> is the number of requests sent before, so that an endpoint may
  answer the same request differently at different times.
  \<^item> \<open>api_search n proxy query page\<close>: what \<open>ApiFofaClient.search\<close> returns, or the
    text of the exception it raises;
  \<^item> \<open>make_request n proxy query page\<close>: what \<open>AnonymousFofaClient._make_request\<close>
    returns for the URL of the query and page (it catches every exception);
  \<^item> \<open>parse_page html\<close>: what the parsing helpers of AnonymousFofaClient make of a
    page. \<open>None\<close> is a \<open>_parse_json_response\<close> that is falsy (\<open>None\<close> or an empty
    dict); otherwise \<open>page_results\<close> is the list
    \<open>[_parse_asset_to_result(a) for a in _extract_assets_from_data(data)]\<close>, or the
    exception of iterating what was extracted, and \<open>page_total\<close> is the outcome of
    \<open>data.get('data', {}).get('total', ...)\<close>: an exception, the key missing
    (\<open>None\<close>), or the value.
\<close>

datatype api_outcome = ApiRaises string | ApiReturns "fofa_response option"

record web_page =
  page_results :: "error + search_result list"
  page_total :: "error + total_value option"

record env =
  api_search :: "nat \<Rightarrow> string option \<Rightarrow> string \<Rightarrow> int \<Rightarrow> api_outcome"
  make_request :: "nat \<Rightarrow> string option \<Rightarrow> string \<Rightarrow> int \<Rightarrow> string option"
  parse_page :: "string \<Rightarrow> web_page option"

subsection \<open>Sequencing with exceptions\<close>

type_synonym 'a action = "client \<Rightarrow> (error + 'a) \<times> client"

definition exn_return :: "'a \<Rightarrow> 'a action" where
  "exn_return a c = (Inr a, c)"

definition exn_raise :: "error \<Rightarrow> 'a action" where
  "exn_raise e c = (Inl e, c)"

definition exn_bind :: "'a action \<Rightarrow> ('a \<Rightarrow> 'b action) \<Rightarrow> 'b action" where
  "exn_bind m f c = (case m c of (Inl e, c') \<Rightarrow> (Inl e, c') | (Inr a, c') \<Rightarrow> f a c')"

text \<open>\<open>try: m except Exception as e: h e\<close>.\<close>

definition exn_catch :: "'a action \<Rightarrow> (error \<Rightarrow> 'a action) \<Rightarrow> 'a action" where
  "exn_catch m h c = (case m c of (Inl e, c') \<Rightarrow> h e c' | (Inr a, c') \<Rightarrow> (Inr a, c'))"

definition modify :: "(client \<Rightarrow> client) \<Rightarrow> unit action" where
  "modify f c = (Inr (), f c)"

text \<open>A method of \<open>self.proxy_manager\<close>.\<close>

definition on_pool :: "(proxy_manager \<Rightarrow> (error + 'a) \<times> proxy_manager) \<Rightarrow> 'a action" where
  "on_pool f c = (case f (proxy_manager c) of (r, pm') \<Rightarrow> (r, c\<lparr>proxy_manager := pm'\<rparr>))"

text \<open>A statement either returns from \<open>search\<close> with a value or goes on to the next.\<close>

datatype 'a flow = Return 'a | Next

subsection \<open>The access clients\<close>

text \<open>
  The properties \<open>api_client\<close> and \<open>web_client\<close>: each access asks the pool for a proxy,
  drops a cached client built with another proxy and builds one when none is cached.
  The value is the client, given by its proxy.
\<close>

definition api_client :: "string option action" where
  "api_client =
     exn_bind (on_pool get_proxy) (\<lambda>current_proxy.
     exn_bind (modify (\<lambda>c. if cached_api_client c \<noteq> None \<and> cached_api_client c \<noteq> Some current_proxy
                            then c\<lparr>cached_api_client := None\<rparr> else c)) (\<lambda>_.
     exn_bind (modify (\<lambda>c. if cached_api_client c = None
                            then c\<lparr>cached_api_client := Some current_proxy\<rparr> else c)) (\<lambda>_.
     (\<lambda>c. case cached_api_client c of
              None \<Rightarrow> (Inr current_proxy, c)
            | Some cl \<Rightarrow> (Inr cl, c)))))"

definition web_client :: "string option action" where
  "web_client =
     exn_bind (on_pool get_proxy) (\<lambda>current_proxy.
     exn_bind (modify (\<lambda>c. if cached_web_client c \<noteq> None \<and> cached_web_client c \<noteq> Some current_proxy
                            then c\<lparr>cached_web_client := None\<rparr> else c)) (\<lambda>_.
     exn_bind (modify (\<lambda>c. if cached_web_client c = None
                            then c\<lparr>cached_web_client := Some current_proxy\<rparr> else c)) (\<lambda>_.
     (\<lambda>c. case cached_web_client c of
              None \<Rightarrow> (Inr current_proxy, c)
            | Some cl \<Rightarrow> (Inr cl, c)))))"

text \<open>\<open>cl.search(query, page)\<close> of the signed client \<open>cl\<close>.\<close>

definition api_client_search :: "env \<Rightarrow> string option \<Rightarrow> string \<Rightarrow> int \<Rightarrow> fofa_response option action" where
  "api_client_search e cl query page c =
     (let c' = c\<lparr>requests := requests c @ [ApiRequest cl query page]\<rparr>
      in case api_search e (length (requests c)) cl query page of
           ApiRaises msg \<Rightarrow> (Inl (OtherError msg), c')
         | ApiReturns r \<Rightarrow> (Inr r, c'))"

text \<open>\<open>cl._make_request(url)\<close> of the anonymous client \<open>cl\<close>.\<close>

definition web_make_request :: "env \<Rightarrow> string option \<Rightarrow> string \<Rightarrow> int \<Rightarrow> string option action" where
  "web_make_request e cl query page c =
     (Inr (make_request e (length (requests c)) cl query page),
      c\<lparr>requests := requests c @ [WebRequest cl query page]\<rparr>)"

text \<open>
  \<open>self.web_client._make_request(self.web_client._build_url(query, page))\<close>: the
  property is read twice, the method of the first client is called.
\<close>

definition web_fetch :: "env \<Rightarrow> string \<Rightarrow> int \<Rightarrow> string option action" where
  "web_fetch e query page =
     exn_bind web_client (\<lambda>cl.
     exn_bind web_client (\<lambda>_.
     web_make_request e cl query page))"

text \<open>One read of \<open>self.web_client\<close> for each asset of the list comprehension.\<close>

fun web_client_times :: "nat \<Rightarrow> unit action" where
  "web_client_times 0 = exn_return ()"
| "web_client_times (Suc n) = exn_bind web_client (\<lambda>_. web_client_times n)"

text \<open>
  \<open>data = self.web_client._parse_json_response(html)\<close>, and when it is truthy
  \<open>assets = self.web_client._extract_assets_from_data(data)\<close> and the list
  comprehension \<open>results\<close>. The value is \<open>None\<close> when \<open>data\<close> is falsy.
\<close>

definition web_parse :: "env \<Rightarrow> string \<Rightarrow> (web_page \<times> search_result list) option action" where
  "web_parse e html =
     exn_bind web_client (\<lambda>_.
       case parse_page e html of
         None \<Rightarrow> exn_return None
       | Some d \<Rightarrow>
           exn_bind web_client (\<lambda>_.
             case page_results d of
               Inl err \<Rightarrow> exn_raise err
             | Inr results \<Rightarrow>
                 exn_bind (web_client_times (length results)) (\<lambda>_.
                 exn_return (Some (d, results)))))"

subsection \<open>Switching the proxy\<close>

definition set_proxy :: "string option \<Rightarrow> client \<Rightarrow> client" where
  "set_proxy p c = c\<lparr>config := (config c)\<lparr>proxy := p\<rparr>\<rparr>"

text \<open>\<open>_proxy_failed\<close>; both \<open>hasattr\<close> tests are true of an engine.\<close>

definition proxy_failed :: "unit action" where
  "proxy_failed =
     exn_bind (modify (\<lambda>c. if truthy_str (proxy (config c))
                            then c\<lparr>proxy_manager := mark_failed (proxy (config c)) (proxy_manager c)\<rparr>
                            else c)) (\<lambda>_.
     exn_bind (modify (\<lambda>c. c\<lparr>failed_count := failed_count c + 1\<rparr>)) (\<lambda>_.
     exn_bind (\<lambda>c. on_pool (get_next_proxy (proxy (config c))) c) (\<lambda>new_proxy.
     modify (\<lambda>c. if truthy_str new_proxy
                  then (set_proxy new_proxy c)\<lparr>cached_api_client := None, cached_web_client := None\<rparr>
                  else c))))"

subsection \<open>search\<close>

text \<open>
  The handler of stage 1 looks for two words in \<open>str(e).lower()\<close>. The texts of the
  exceptions that the program itself raises, IndexError (list index out of range) and
  the TypeError of a comparison, contain neither.
\<close>

definition is_transport_error :: "error \<Rightarrow> bool" where
  "is_transport_error err =
     (case err of
        OtherError msg \<Rightarrow> contains_str ''timeout'' (lower msg) \<or> contains_str ''connection'' (lower msg)
      | _ \<Rightarrow> False)"

text \<open>Stage 1, the body of \<open>if self.mode in [AccessMode.API, AccessMode.AUTO]\<close>.\<close>

definition stage1 :: "env \<Rightarrow> string \<Rightarrow> int \<Rightarrow> fofa_response option flow action" where
  "stage1 e query page =
     exn_catch
       (exn_bind (modify (\<lambda>c. c\<lparr>total := total c + 1\<rparr>)) (\<lambda>_.
        exn_bind (on_pool get_proxy) (\<lambda>current_proxy.
        exn_bind (modify (\<lambda>c. if current_proxy \<noteq> proxy (config c)
                               then (set_proxy current_proxy c)\<lparr>cached_api_client := None\<rparr>
                               else c)) (\<lambda>_.
        exn_bind api_client (\<lambda>cl.
        exn_bind (api_client_search e cl query page) (\<lambda>response.
          case response of
            Some r \<Rightarrow>
              if is_ban_response r then
                exn_bind (modify (\<lambda>c. c\<lparr>ban_count := ban_count c + 1\<rparr>)) (\<lambda>_.
                exn_bind proxy_failed (\<lambda>_. exn_return Next))
              else
                (case data r of
                   Some d \<Rightarrow>
                     if assets d \<noteq> [] then
                       exn_bind (modify (\<lambda>c. c\<lparr>success := success c + 1\<rparr>)) (\<lambda>_.
                       exn_bind (modify (\<lambda>c. c\<lparr>proxy_manager :=
                                   mark_success (proxy (config c)) (proxy_manager c)\<rparr>)) (\<lambda>_.
                       exn_return (Return (Some r))))
                     else exn_return Next
                 | None \<Rightarrow> exn_return Next)
          | None \<Rightarrow>
              exn_bind (modify (\<lambda>c. c\<lparr>ban_count := ban_count c + 1\<rparr>)) (\<lambda>_.
              exn_bind proxy_failed (\<lambda>_. exn_return Next))))))))
       (\<lambda>err. if is_transport_error err
               then exn_bind proxy_failed (\<lambda>_. exn_return Next)
               else exn_return Next)"

text \<open>
  The loop \<open>for retry in range(8)\<close> of stage 2, with the number of iterations left;
  \<open>time.sleep\<close> changes nothing the program reads.
\<close>

fun ensure_proxy :: "nat \<Rightarrow> unit action" where
  "ensure_proxy 0 = exn_return ()"
| "ensure_proxy (Suc n) =
     exn_bind (on_pool get_proxy) (\<lambda>current_proxy.
       if truthy_str current_proxy
       then modify (\<lambda>c. (set_proxy current_proxy c)\<lparr>cached_web_client := None\<rparr>)
       else ensure_proxy n)"

text \<open>The response that stages 2 and 3 build from the parsed results.\<close>

definition web_response :: "search_result list \<Rightarrow> total_value \<Rightarrow> int \<Rightarrow> fofa_response" where
  "web_response results tot page =
     \<lparr>code = 200, message = ''success'',
      data = Some \<lparr>assets = results, reported_total = tot, page_number = page\<rparr>\<rparr>"

text \<open>The \<open>try\<close> statement of stage 2.\<close>

definition stage2_request :: "env \<Rightarrow> string \<Rightarrow> int \<Rightarrow> fofa_response option flow action" where
  "stage2_request e query page =
     exn_catch
       (exn_bind (modify (\<lambda>c. c\<lparr>total := total c + 1\<rparr>)) (\<lambda>_.
        exn_bind (web_fetch e query page) (\<lambda>html.
          if \<not> truthy_str html then exn_bind proxy_failed (\<lambda>_. exn_return Next)
          else if is_ban_html (the html) then
            exn_bind (modify (\<lambda>c. c\<lparr>ban_count := ban_count c + 1\<rparr>)) (\<lambda>_.
            exn_bind proxy_failed (\<lambda>_. exn_return Next))
          else
            exn_bind (web_parse e (the html)) (\<lambda>parsed.
              case parsed of
                None \<Rightarrow> exn_return Next
              | Some (d, results) \<Rightarrow>
                  if results \<noteq> [] then
                    exn_bind (modify (\<lambda>c. c\<lparr>success := success c + 1\<rparr>)) (\<lambda>_.
                    exn_bind (modify (\<lambda>c. c\<lparr>proxy_manager :=
                                mark_success (proxy (config c)) (proxy_manager c)\<rparr>)) (\<lambda>_.
                      case page_total d of
                        Inl err \<Rightarrow> exn_raise err
                      | Inr None \<Rightarrow>
                          exn_return (Return (Some (web_response results
                                        (IntTotal (int (length results))) page)))
                      | Inr (Some tot) \<Rightarrow>
                          exn_return (Return (Some (web_response results tot page)))))
                  else exn_return Next))))
       (\<lambda>err. exn_bind proxy_failed (\<lambda>_. exn_return Next))"

text \<open>Stage 2, the body of \<open>if AccessMode.AUTO == self.mode or self.mode == AccessMode.WEB\<close>.\<close>

definition stage2 :: "env \<Rightarrow> string \<Rightarrow> int \<Rightarrow> fofa_response option flow action" where
  "stage2 e query page =
     exn_bind (modify (\<lambda>c. c\<lparr>mode := WEB\<rparr>)) (\<lambda>_.
     exn_bind (ensure_proxy 8) (\<lambda>_.
     (\<lambda>c. if \<not> truthy_str (proxy (config c)) \<and> \<not> allow_direct (proxy_manager c)
           then (Inr (Return None), c)
           else stage2_request e query page c)))"

text \<open>
  Stage 3, the body of \<open>if max_retries > 1\<close>. Its \<open>try\<close> has a bare \<open>except\<close> that
  passes.
\<close>

definition stage3 :: "env \<Rightarrow> string \<Rightarrow> int \<Rightarrow> fofa_response option flow action" where
  "stage3 e query page =
     exn_bind (on_pool get_proxy) (\<lambda>current_proxy.
     (\<lambda>c. if truthy_str current_proxy \<and> current_proxy \<noteq> proxy (config c) then
             exn_bind (modify (\<lambda>c. (set_proxy current_proxy c)
                         \<lparr>cached_api_client := None, cached_web_client := None, mode := WEB\<rparr>)) (\<lambda>_.
             exn_catch
               (exn_bind (modify (\<lambda>c. c\<lparr>total := total c + 1\<rparr>)) (\<lambda>_.
                exn_bind (web_fetch e query page) (\<lambda>html.
                  if truthy_str html \<and> \<not> is_ban_html (the html) then
                    exn_bind (web_parse e (the html)) (\<lambda>parsed.
                      case parsed of
                        None \<Rightarrow> exn_return Next
                      | Some (d, results) \<Rightarrow>
                          if results \<noteq> [] then
                            exn_bind (modify (\<lambda>c. c\<lparr>success := success c + 1\<rparr>)) (\<lambda>_.
                            exn_bind (modify (\<lambda>c. c\<lparr>proxy_manager :=
                                        mark_success (proxy (config c)) (proxy_manager c)\<rparr>)) (\<lambda>_.
                            exn_return (Return (Some (web_response results
                                          (IntTotal (int (length results))) page)))))
                          else exn_return Next)
                  else exn_return Next)))
               (\<lambda>err. exn_return Next)) c
           else (Inr Next, c)))"

text \<open>
  What \<open>search\<close> does once stage 1 is over without a \<open>return\<close>: stage 2 under
  its condition, stage 3 under its own, and the final \<open>return None\<close>.
\<close>

definition web_stages :: "env \<Rightarrow> string \<Rightarrow> int \<Rightarrow> int \<Rightarrow> fofa_response option action" where
  "web_stages e query page max_retries =
     exn_bind (\<lambda>c. if AUTO = mode c \<or> mode c = WEB then stage2 e query page c
                    else (Inr Next, c)) (\<lambda>r2.
       case r2 of
         Return v \<Rightarrow> exn_return v
       | Next \<Rightarrow>
           exn_bind (if 1 < max_retries then stage3 e query page else exn_return Next) (\<lambda>r3.
             case r3 of
               Return v \<Rightarrow> exn_return v
             | Next \<Rightarrow> exn_return None))"

text \<open>\<open>search(query, page, max_retries)\<close>.\<close>

definition search :: "env \<Rightarrow> string \<Rightarrow> int \<Rightarrow> int \<Rightarrow> fofa_response option action" where
  "search e query page max_retries =
     exn_bind (\<lambda>c. if mode c = API \<or> mode c = AUTO then stage1 e query page c else (Inr Next, c)) (\<lambda>r1.
       case r1 of
         Return v \<Rightarrow> exn_return v
       | Next \<Rightarrow> web_stages e query page max_retries)"

text \<open>A sequence of calls of \<open>search\<close> on one engine, each with its arguments.\<close>

fun searches :: "env \<Rightarrow> (string \<times> int \<times> int) list \<Rightarrow> client \<Rightarrow> client" where
  "searches e [] c = c"
| "searches e ((query, page, max_retries) # calls) c =
     searches e calls (snd (search e query page max_retries c))"

subsection \<open>search_all\<close>

text \<open>The local variables of the loop of \<open>search_all\<close>.\<close>

record loop_state =
  all_results :: "search_result list"
  page :: int
  consecutive_failures :: int

text \<open>
  The SearchResult that \<open>search_all\<close> builds from an entry \<open>r\<close> of \<open>assets\<close>.
  Every key is present in the entry, so no default of a \<open>get\<close> is used;
  \<open>int\<close> and \<open>str\<close> are applied to an integer and a string.
\<close>

definition convert_asset :: "search_result \<Rightarrow> search_result" where
  "convert_asset r =
     \<lparr>link = link r, host = host r,
      port = (if port r \<noteq> 0 then port r else 0),
      title = title r,
      ip = (if ip r \<noteq> [] then ip r else []),
      city = (if city r \<noteq> [] then city r else []),
      asn = asn r,
      organization = (if organization r \<noteq> [] then organization r else []),
      server = (if server r \<noteq> [] then server r else []),
      mtime = (if mtime r \<noteq> [] then mtime r else [])\<rparr>"

text \<open>How one pass through the body of the loop ends.\<close>

datatype loop_exit = Break loop_state | Continue loop_state

text \<open>The body of the \<open>while\<close> loop of \<open>search_all\<close>.\<close>

definition search_all_step :: "env \<Rightarrow> string \<Rightarrow> int \<Rightarrow> loop_state \<Rightarrow> loop_exit action" where
  "search_all_step e query max_consecutive_failures st =
     exn_bind (search e query (page st) 3) (\<lambda>response.
       case response of
         None \<Rightarrow>
           (let st1 = st\<lparr>consecutive_failures := consecutive_failures st + 1\<rparr> in
            exn_bind (on_pool get_proxy) (\<lambda>p.
            (\<lambda>c. if p = None \<and> \<not> allow_direct (proxy_manager c) then (Inr (Break st1), c)
                  else if max_consecutive_failures \<le> consecutive_failures st1 then (Inr (Break st1), c)
                  else (Inr (Continue (st1\<lparr>page := page st1 + 1\<rparr>)), c))))
       | Some r \<Rightarrow>
           (let st1 = st\<lparr>consecutive_failures := 0\<rparr>;
                found = (case data r of Some d \<Rightarrow> assets d | None \<Rightarrow> []);
                search_results = map convert_asset found;
                st2 = st1\<lparr>all_results := all_results st1 @ search_results\<rparr>;
                next_page = Continue (st2\<lparr>page := page st2 + 1\<rparr>)
            in (\<lambda>c. if end_count (config c) \<le> int (length (all_results st2)) then
                       (Inr (Break (st2\<lparr>all_results :=
                                take (nat (end_count (config c))) (all_results st2)\<rparr>)), c)
                     else
                       (case data r of
                          None \<Rightarrow> (Inr next_page, c)
                        | Some d \<Rightarrow>
                            (case reported_total d of
                               NoTotal \<Rightarrow> (Inr next_page, c)
                             | IntTotal t \<Rightarrow>
                                 if t \<noteq> 0 \<and> 0 < t \<and> t \<le> int (length (all_results st2))
                                 then (Inr (Break st2), c)
                                 else (Inr next_page, c)
                             | NonNumericTotal \<Rightarrow> (Inl TypeError, c))))))"

text \<open>
  A pass that goes round again has turned the page; the loop terminates by it.
\<close>

lemma search_all_step_page:
  "search_all_step e query mcf st c = (Inr (Continue st'), c') \<Longrightarrow> page st' = page st + 1"
  by (auto simp: search_all_step_def exn_bind_def on_pool_def Let_def
           split: prod.splits sum.splits option.splits if_splits total_value.splits)

text \<open>The \<open>while\<close> loop; the value is the local variables when the loop is left.\<close>

function search_all_loop :: "env \<Rightarrow> string \<Rightarrow> int \<Rightarrow> int \<Rightarrow> loop_state \<Rightarrow> loop_state action" where
  "search_all_loop e query max_pages max_consecutive_failures st c =
     (if int (length (all_results st)) < end_count (config c) \<and> page st \<le> max_pages then
        (case search_all_step e query max_consecutive_failures st c of
           (Inl err, c') \<Rightarrow> (Inl err, c')
         | (Inr (Break st'), c') \<Rightarrow> (Inr st', c')
         | (Inr (Continue st'), c') \<Rightarrow>
             search_all_loop e query max_pages max_consecutive_failures st' c')
      else (Inr st, c))"
  by pat_completeness auto
termination
  apply (relation "measure (\<lambda>(e, query, max_pages, mcf, st, c). nat (max_pages + 1 - page st))")
   apply simp
  apply (auto dest: search_all_step_page search_all_step_page [OF sym])
  done

text \<open>\<open>search_all(query, max_pages, max_consecutive_failures)\<close>.\<close>

definition search_all :: "env \<Rightarrow> string \<Rightarrow> int \<Rightarrow> int \<Rightarrow> search_result list action" where
  "search_all e query max_pages max_consecutive_failures =
     exn_bind (search_all_loop e query max_pages max_consecutive_failures
                 \<lparr>all_results = [], page = 1, consecutive_failures = 0\<rparr>) (\<lambda>st.
     exn_return (all_results st))"

section \<open>Example states\<close>

text \<open>Three proxies, each failed three times, the cursor on the second.\<close>

definition pool_all_failed :: proxy_manager where
  "pool_all_failed =
     \<lparr>proxies = [''http://10.0.0.1:80'', ''http://10.0.0.2:80'', ''http://10.0.0.3:80''],
      failed = [''http://10.0.0.1:80'' \<mapsto> 3, ''http://10.0.0.2:80'' \<mapsto> 3, ''http://10.0.0.3:80'' \<mapsto> 3],
      idx = 1, pool = [], is_ready = True, allow_direct = True, refreshing = None\<rparr>"

text \<open>One proxy, failed three times.\<close>

definition pool_single_failed :: proxy_manager where
  "pool_single_failed =
     \<lparr>proxies = [''http://10.0.0.1:80''], failed = [''http://10.0.0.1:80'' \<mapsto> 3],
      idx = 0, pool = [], is_ready = True, allow_direct = True, refreshing = None\<rparr>"

text \<open>Two proxies, the second failed four times, the cursor on the second.\<close>

definition pool_only_first_usable :: proxy_manager where
  "pool_only_first_usable =
     \<lparr>proxies = [''http://10.0.0.1:80'', ''http://10.0.0.2:80''],
      failed = [''http://10.0.0.2:80'' \<mapsto> 4],
      idx = 1, pool = [], is_ready = True, allow_direct = True, refreshing = None\<rparr>"

text \<open>
  \<open>ProxyManager(allow_direct=False)\<close> after \<open>add_proxy("http://10.0.0.1:80")\<close>.
\<close>

definition pool_manual_no_direct :: proxy_manager where
  "pool_manual_no_direct = add_proxy ''http://10.0.0.1:80'' (init_proxy_manager False)"

text \<open>A pool of three proxies after two calls of \<open>get_proxy\<close>: the cursor is 2.\<close>

definition pool_three_rotated :: proxy_manager where
  "pool_three_rotated =
     snd (get_proxy (snd (get_proxy
       (fold add_proxy [''http://10.0.0.1:80'', ''http://10.0.0.2:80'', ''http://10.0.0.3:80'']
          (init_proxy_manager True)))))"

section \<open>Notions used to state the properties\<close>

text \<open>An action preserves a predicate on the engine, whether it returns or raises.\<close>

definition preserves :: "(client \<Rightarrow> bool) \<Rightarrow> 'a action \<Rightarrow> bool" where
  "preserves P m = (\<forall>c. P c \<longrightarrow> P (snd (m c)))"

text \<open>The mode is one of a given set and the target count is a given number.\<close>

definition kept :: "access_mode set \<Rightarrow> int \<Rightarrow> client \<Rightarrow> bool" where
  "kept m k c = (mode c \<in> m \<and> end_count (config c) = k)"

fun is_web_request :: "request \<Rightarrow> bool" where
  "is_web_request (WebRequest cl query pg) = True"
| "is_web_request (ApiRequest cl query pg) = False"

text \<open>
  The engine after stage 1 has sent its request and has neither counted a success nor
  switched the proxy: \<open>p1\<close> is the proxy that the first \<open>get_proxy\<close> of the stage
  returned, \<open>p2\<close> and \<open>pm2\<close> the proxy and the pool that the one of the property
  \<open>api_client\<close> returned.
\<close>

definition after_api_request ::
  "client \<Rightarrow> string option \<Rightarrow> proxy_manager \<Rightarrow> string option \<Rightarrow> string \<Rightarrow> int \<Rightarrow> client" where
  "after_api_request c p1 pm2 p2 query pg =
     c\<lparr>config := (config c)\<lparr>proxy := p1\<rparr>, proxy_manager := pm2,
       cached_api_client := Some p2, total := total c + 1,
       requests := requests c @ [ApiRequest p2 query pg]\<rparr>"

text \<open>A target count of 20 and no proxy assigned.\<close>

definition config_20 :: search_config where
  "config_20 = \<lparr>end_count = 20, proxy = None\<rparr>"

definition asset_a :: search_result where
  "asset_a = \<lparr>link = ''http://192.0.2.1:80'', host = ''192.0.2.1:80'', port = 80, title = ''a'',
     ip = ''192.0.2.1'', city = [], asn = ''64496'', organization = [], server = ''nginx'', mtime = []\<rparr>"

text \<open>
  The signed endpoint answers every request with no asset; the anonymous one does not
  answer.
\<close>

definition env_api_empty :: env where
  "env_api_empty =
     \<lparr>api_search = (\<lambda>n cl query pg. ApiReturns (Some
         \<lparr>code = 200, message = ''success'',
          data = Some \<lparr>assets = [], reported_total = IntTotal 0, page_number = pg\<rparr>\<rparr>)),
      make_request = (\<lambda>n cl query pg. None),
      parse_page = (\<lambda>html. None)\<rparr>"

text \<open>The signed endpoint answers every request with one asset.\<close>

definition env_api_one :: env where
  "env_api_one =
     \<lparr>api_search = (\<lambda>n cl query pg. ApiReturns (Some
         \<lparr>code = 200, message = ''success'',
          data = Some \<lparr>assets = [asset_a], reported_total = IntTotal 1, page_number = pg\<rparr>\<rparr>)),
      make_request = (\<lambda>n cl query pg. None),
      parse_page = (\<lambda>html. None)\<rparr>"

text \<open>The cursor invariant, in a pool that allows direct connection.\<close>

definition pool_inv :: "proxy_manager \<Rightarrow> bool" where
  "pool_inv pm = (cursor_ok pm \<and> allow_direct pm)"

text \<open>
  From every engine that satisfies \<open>P\<close> the action returns, with a value and an
  engine that satisfy \<open>Q\<close>.
\<close>

definition runs :: "(client \<Rightarrow> bool) \<Rightarrow> 'a action \<Rightarrow> ('a \<Rightarrow> client \<Rightarrow> bool) \<Rightarrow> bool" where
  "runs P m Q = (\<forall>c. P c \<longrightarrow> (\<exists>a c'. m c = (Inr a, c') \<and> Q a c'))"

text \<open>The pool is in order and the mode is the given one.\<close>

definition engine_inv :: "access_mode \<Rightarrow> client \<Rightarrow> bool" where
  "engine_inv m c = (pool_inv (proxy_manager c) \<and> mode c = m)"

text \<open>
  The \<open>total\<close> that stage 2 puts in its response: the value found, or the number of
  results when the key is missing.
\<close>

definition total_of :: "total_value option \<Rightarrow> nat \<Rightarrow> total_value" where
  "total_of t n = (case t of None \<Rightarrow> IntTotal (int n) | Some v \<Rightarrow> v)"

text \<open>
  The signed client returns none, which the engine treats as a ban; the anonymous
  endpoint answers every request with a page of five assets.
\<close>

definition env_ban_web :: env where
  "env_ban_web =
     \<lparr>api_search = (\<lambda>n cl query pg. ApiReturns None),
      make_request = (\<lambda>n cl query pg. Some ''page''),
      parse_page = (\<lambda>html. if html = ''page''
         then Some \<lparr>page_results = Inr (replicate 5 asset_a), page_total = Inr (Some (IntTotal 5))\<rparr>
         else None)\<rparr>"

text \<open>
  The signed client returns none. The anonymous endpoint answers every request with a
  page whose JSON object holds five assets in a list under the key \<open>data\<close>:
  \<open>_extract_assets_from_data\<close> finds the five assets there, and
  \<open>data.get('data', {}).get('total', ...)\<close> calls \<open>get\<close> on that list, which raises
  AttributeError.
\<close>

definition env_ban_web_list :: env where
  "env_ban_web_list =
     \<lparr>api_search = (\<lambda>n cl query pg. ApiReturns None),
      make_request = (\<lambda>n cl query pg. Some ''page''),
      parse_page = (\<lambda>html. if html = ''page''
         then Some \<lparr>page_results = Inr (replicate 5 asset_a),
                    page_total = Inl (OtherError ([CHR 0x27] @ ''list'' @ [CHR 0x27]
                      @ '' object has no attribute '' @ [CHR 0x27] @ ''get'' @ [CHR 0x27]))\<rparr>
         else None)\<rparr>"

text \<open>\<open>UnifiedFofaClient(config, proxies=["http://10.0.0.1:80"])\<close>.\<close>

definition client_one_proxy :: client where
  "client_one_proxy = init_client config_20 [''http://10.0.0.1:80'']"

text \<open>A target count of 100 and no proxy assigned.\<close>

definition config_100 :: search_config where
  "config_100 = \<lparr>end_count = 100, proxy = None\<rparr>"

text \<open>
  Both endpoints answer every request with no asset: the signed one with an empty
  list, the anonymous one with a page that parses to no result.
\<close>

definition env_both_empty :: env where
  "env_both_empty =
     \<lparr>api_search = (\<lambda>n cl query pg. ApiReturns (Some
         \<lparr>code = 200, message = ''success'',
          data = Some \<lparr>assets = [], reported_total = IntTotal 0, page_number = pg\<rparr>\<rparr>)),
      make_request = (\<lambda>n cl query pg. Some ''page''),
      parse_page = (\<lambda>html. Some \<lparr>page_results = Inr [], page_total = Inr (Some (IntTotal 0))\<rparr>)\<rparr>"

text \<open>The local variables with which a pass of the loop ends.\<close>

fun exit_state :: "loop_exit \<Rightarrow> loop_state" where
  "exit_state (Break st) = st"
| "exit_state (Continue st) = st"

text \<open>
  The signed client returns none. The anonymous endpoint answers page 1 with a page of
  15 assets and every other page with a page of 10; \<open>t\<close> is what both pages hold under
  \<open>total\<close> (\<open>None\<close>: the key is missing).
\<close>

definition env_two_pages :: "total_value option \<Rightarrow> env" where
  "env_two_pages t =
     \<lparr>api_search = (\<lambda>n cl query pg. ApiReturns None),
      make_request = (\<lambda>n cl query pg. Some (if pg = 1 then ''page1'' else ''page2'')),
      parse_page = (\<lambda>html.
         if html = ''page1''
         then Some \<lparr>page_results = Inr (replicate 15 asset_a), page_total = Inr t\<rparr>
         else if html = ''page2''
         then Some \<lparr>page_results = Inr (replicate 10 asset_a), page_total = Inr t\<rparr>
         else None)\<rparr>"

text \<open>
  The signed client returns none. The anonymous endpoint answers page 1 with a page of
  five assets and every other page with a page without assets.
\<close>

definition env_first_page_only :: env where
  "env_first_page_only =
     \<lparr>api_search = (\<lambda>n cl query pg. ApiReturns None),
      make_request = (\<lambda>n cl query pg. Some (if pg = 1 then ''page1'' else ''empty'')),
      parse_page = (\<lambda>html.
         if html = ''page1''
         then Some \<lparr>page_results = Inr (replicate 5 asset_a), page_total = Inr (Some (IntTotal 100))\<rparr>
         else Some \<lparr>page_results = Inr [], page_total = Inr (Some (IntTotal 100))\<rparr>)\<rparr>"

text \<open>The engine of \<open>config_20\<close> without proxies after page 1 of that endpoint.\<close>

definition after_first_page :: client where
  "after_first_page =
     (init_client config_20 [])\<lparr>mode := WEB, cached_api_client := Some None,
        cached_web_client := Some None, total := 2, success := 1, failed_count := 1,
        ban_count := 1,
        requests := [ApiRequest None ''port=80'' 1, WebRequest None ''port=80'' 1]\<rparr>"

section \<open>Properties of the proxy pool\<close>

text \<open>
  A pass of the loop of \<open>get_next_proxy\<close> that meets no proxy to return visits every
  position once and leaves the cursor \<open>n\<close> places further, modulo the length.
\<close>

lemma get_next_loop_none:
  assumes "idx pm < length (proxies pm)"
    and "\<forall>q\<in>set (proxies pm). Some q = cur \<or> 3 \<le> failed_get (failed pm) q"
  shows "get_next_loop n cur pm = (Inr None, pm\<lparr>idx := (idx pm + n) mod length (proxies pm)\<rparr>)"
  using assms
proof (induction n arbitrary: pm)
  case 0
  then show ?case by simp
next
  case (Suc n)
  let ?L = "length (proxies pm)"
  let ?pm' = "pm\<lparr>idx := (idx pm + 1) mod ?L\<rparr>"
  have mem: "proxies pm ! idx pm \<in> set (proxies pm)" using Suc.prems(1) by simp
  have bad: "\<not> (Some (proxies pm ! idx pm) \<noteq> cur \<and> failed_get (failed pm) (proxies pm ! idx pm) < 3)"
    using Suc.prems(2) mem by fastforce
  have pos: "0 < ?L" using Suc.prems(1) by linarith
  have lt: "idx ?pm' < length (proxies ?pm')" using pos by simp
  have all': "\<forall>q\<in>set (proxies ?pm'). Some q = cur \<or> 3 \<le> failed_get (failed ?pm') q"
    using Suc.prems(2) by simp
  have step: "get_next_loop (Suc n) cur pm = get_next_loop n cur ?pm'"
    using Suc.prems(1) bad by (auto simp: Let_def)
  have "get_next_loop n cur ?pm' = (Inr None, ?pm'\<lparr>idx := (idx ?pm' + n) mod length (proxies ?pm')\<rparr>)"
    by (rule Suc.IH [OF lt all'])
  moreover have "((idx pm + 1) mod ?L + n) mod ?L = (idx pm + Suc n) mod ?L"
    by (simp add: mod_add_left_eq)
  ultimately show ?case using step by simp
qed

lemma get_next_proxy_exhausted:
  assumes "2 \<le> length (proxies pm)" and "idx pm < length (proxies pm)"
    and "\<forall>q\<in>set (proxies pm). Some q = cur \<or> 3 \<le> failed_get (failed pm) q"
  shows "get_next_proxy cur pm =
           (Inr (if failed_get (failed pm) (proxies pm ! 0) < 3 then Some (proxies pm ! 0) else None), pm)"
proof -
  have "get_next_loop (length (proxies pm)) cur pm = (Inr None, pm\<lparr>idx := (idx pm + length (proxies pm)) mod length (proxies pm)\<rparr>)"
    by (rule get_next_loop_none [OF assms(2,3)])
  moreover have "(idx pm + length (proxies pm)) mod length (proxies pm) = idx pm"
    using assms(2) by simp
  ultimately have "get_next_loop (length (proxies pm)) cur pm = (Inr None, pm)" by simp
  then show ?thesis using assms(1) by (auto simp: get_next_proxy_def)
qed

text \<open>
  C3. In a pool whose proxy sequence is not empty, whose proxies all have a failure
  count of at least 3 and whose cursor is an index of the sequence, \<open>get_proxy\<close>
  clears every failure count and then returns the proxy at the cursor; the failure
  count of the returned proxy is 0 after the call.
\<close>

theorem get_proxy_resets_when_all_failed:
  assumes "proxies pm \<noteq> []"
    and "\<forall>p\<in>set (proxies pm). 3 \<le> failed_get (failed pm) p"
    and "idx pm < length (proxies pm)"
  shows "get_proxy pm = (Inr (Some (proxies pm ! idx pm)),
            pm\<lparr>failed := Map.empty, idx := (idx pm + 1) mod length (proxies pm)\<rparr>)
         \<and> failed_get (failed (snd (get_proxy pm))) (proxies pm ! idx pm) = 0"
proof -
  obtain n where n: "length (proxies pm) = Suc n" using assms(1) by (cases "proxies pm") auto
  have "list_all (\<lambda>p. 3 \<le> failed_get (failed pm) p) (proxies pm)"
    using assms(2) by (simp add: list_all_iff)
  then have "get_proxy pm = (Inr (Some (proxies pm ! idx pm)),
            pm\<lparr>failed := Map.empty, idx := (idx pm + 1) mod length (proxies pm)\<rparr>)"
    using assms(1,3) n by (simp add: get_proxy_def Let_def failed_get_def)
  then show ?thesis by (simp add: failed_get_def)
qed

theorem get_proxy_resets_when_all_failed_witness:
  "proxies pool_all_failed \<noteq> []
   \<and> list_all (\<lambda>p. 3 \<le> failed_get (failed pool_all_failed) p) (proxies pool_all_failed)
   \<and> idx pool_all_failed < length (proxies pool_all_failed)
   \<and> fst (get_proxy pool_all_failed) = Inr (Some ''http://10.0.0.2:80'')
   \<and> failed_get (failed (snd (get_proxy pool_all_failed))) ''http://10.0.0.2:80'' = 0
   \<and> failed_get (failed pool_all_failed) ''http://10.0.0.2:80'' = 3"
proof -
  have h1: "proxies pool_all_failed \<noteq> []" by (simp add: pool_all_failed_def)
  have h2: "\<forall>p\<in>set (proxies pool_all_failed). 3 \<le> failed_get (failed pool_all_failed) p"
    by (simp add: pool_all_failed_def failed_get_def)
  have h3: "idx pool_all_failed < length (proxies pool_all_failed)" by (simp add: pool_all_failed_def)
  show ?thesis
    using get_proxy_resets_when_all_failed [OF h1 h2 h3] h2
    by (simp add: pool_all_failed_def failed_get_def list_all_iff)
qed


text \<open>
  C7. \<open>get_proxy\<close> on an empty proxy sequence returns none. \<open>get_next_proxy\<close> on a
  pool of one proxy returns it iff its failure count is below 3. On a pool of two or
  more proxies with the cursor in range, where every proxy is the excluded one or has
  a failure count of at least 3 (a full cycle finds nothing), \<open>get_next_proxy\<close>
  returns the first proxy of the sequence iff its failure count is below 3, and none
  otherwise. The pool is left as it was in all three cases.
\<close>

theorem pool_boundaries:
  "(proxies pm = [] \<longrightarrow> get_proxy pm = (Inr None, pm))
   \<and> (proxies pm = [p] \<longrightarrow>
        get_next_proxy cur pm = (Inr (if failed_get (failed pm) p < 3 then Some p else None), pm))
   \<and> (2 \<le> length (proxies pm) \<and> idx pm < length (proxies pm)
        \<and> (\<forall>q\<in>set (proxies pm). Some q = cur \<or> 3 \<le> failed_get (failed pm) q) \<longrightarrow>
        get_next_proxy cur pm =
          (Inr (if failed_get (failed pm) (hd (proxies pm)) < 3 then Some (hd (proxies pm)) else None), pm))"
proof -
  have a: "proxies pm = [] \<longrightarrow> get_proxy pm = (Inr None, pm)"
    by (simp add: get_proxy_def)
  have b: "proxies pm = [p] \<longrightarrow>
        get_next_proxy cur pm = (Inr (if failed_get (failed pm) p < 3 then Some p else None), pm)"
    by (simp add: get_next_proxy_def)
  have c: "2 \<le> length (proxies pm) \<and> idx pm < length (proxies pm)
        \<and> (\<forall>q\<in>set (proxies pm). Some q = cur \<or> 3 \<le> failed_get (failed pm) q) \<longrightarrow>
        get_next_proxy cur pm =
          (Inr (if failed_get (failed pm) (hd (proxies pm)) < 3 then Some (hd (proxies pm)) else None), pm)"
  proof (intro impI, elim conjE)
    assume h: "2 \<le> length (proxies pm)" "idx pm < length (proxies pm)"
      "\<forall>q\<in>set (proxies pm). Some q = cur \<or> 3 \<le> failed_get (failed pm) q"
    have "proxies pm \<noteq> []" using h(1) by auto
    then have "proxies pm ! 0 = hd (proxies pm)" by (simp add: hd_conv_nth)
    then show "get_next_proxy cur pm =
          (Inr (if failed_get (failed pm) (hd (proxies pm)) < 3 then Some (hd (proxies pm)) else None), pm)"
      using get_next_proxy_exhausted [OF h] by simp
  qed
  show ?thesis using a b c by blast
qed

theorem pool_boundaries_witness:
  "get_proxy (init_proxy_manager True) = (Inr None, init_proxy_manager True)
   \<and> get_next_proxy None pool_single_failed = (Inr None, pool_single_failed)
   \<and> get_next_proxy None (pool_single_failed\<lparr>failed := Map.empty\<rparr>)
       = (Inr (Some ''http://10.0.0.1:80''), pool_single_failed\<lparr>failed := Map.empty\<rparr>)
   \<and> get_next_proxy (Some ''http://10.0.0.1:80'') pool_only_first_usable
       = (Inr (Some ''http://10.0.0.1:80''), pool_only_first_usable)
   \<and> get_next_proxy (Some ''http://10.0.0.1:80'') pool_all_failed = (Inr None, pool_all_failed)"
proof -
  have e: "proxies (init_proxy_manager True) = []" by (simp add: init_proxy_manager_def)
  have s1: "proxies pool_single_failed = [''http://10.0.0.1:80'']" by (simp add: pool_single_failed_def)
  have s2: "proxies (pool_single_failed\<lparr>failed := Map.empty\<rparr>) = [''http://10.0.0.1:80'']"
    by (simp add: pool_single_failed_def)
  have t1: "2 \<le> length (proxies pool_only_first_usable) \<and> idx pool_only_first_usable < length (proxies pool_only_first_usable)
        \<and> (\<forall>q\<in>set (proxies pool_only_first_usable). Some q = Some ''http://10.0.0.1:80'' \<or> 3 \<le> failed_get (failed pool_only_first_usable) q)"
    by (simp add: pool_only_first_usable_def failed_get_def)
  have t2: "2 \<le> length (proxies pool_all_failed) \<and> idx pool_all_failed < length (proxies pool_all_failed)
        \<and> (\<forall>q\<in>set (proxies pool_all_failed). Some q = Some ''http://10.0.0.1:80'' \<or> 3 \<le> failed_get (failed pool_all_failed) q)"
    by (simp add: pool_all_failed_def failed_get_def)
  show ?thesis
    using pool_boundaries [of "init_proxy_manager True" "[]" None] e
      pool_boundaries [of pool_single_failed "''http://10.0.0.1:80''" None] s1
      pool_boundaries [of "pool_single_failed\<lparr>failed := Map.empty\<rparr>" "''http://10.0.0.1:80''" None] s2
      pool_boundaries [of pool_only_first_usable "[]" "Some ''http://10.0.0.1:80''"] t1
      pool_boundaries [of pool_all_failed "[]" "Some ''http://10.0.0.1:80''"] t2
    by (simp add: pool_single_failed_def pool_only_first_usable_def pool_all_failed_def failed_get_def)
qed

text \<open>
  C10. In a pool of at least two proxies that all have a failure count of at least 3,
  with the cursor in range, \<open>get_next_proxy\<close> returns none and leaves the pool as it
  was: no failure count is cleared and the proxy sequence is the same. On the same
  state \<open>get_proxy\<close> clears the failure counts and returns a proxy.
\<close>

theorem get_next_proxy_never_resets:
  assumes "2 \<le> length (proxies pm)"
    and "\<forall>p\<in>set (proxies pm). 3 \<le> failed_get (failed pm) p"
    and "idx pm < length (proxies pm)"
  shows "get_next_proxy cur pm = (Inr None, pm)
         \<and> failed (snd (get_proxy pm)) = Map.empty
         \<and> fst (get_proxy pm) = Inr (Some (proxies pm ! idx pm))"
proof -
  have ne: "proxies pm \<noteq> []" using assms(1) by auto
  have all: "\<forall>q\<in>set (proxies pm). Some q = cur \<or> 3 \<le> failed_get (failed pm) q"
    using assms(2) by simp
  have "proxies pm ! 0 \<in> set (proxies pm)" using ne by simp
  then have "\<not> failed_get (failed pm) (proxies pm ! 0) < 3" using assms(2) by fastforce
  then have "get_next_proxy cur pm = (Inr None, pm)"
    using get_next_proxy_exhausted [OF assms(1) assms(3) all] by simp
  moreover have "list_all (\<lambda>p. 3 \<le> failed_get (failed pm) p) (proxies pm)"
    using assms(2) by (simp add: list_all_iff)
  moreover obtain n where "length (proxies pm) = Suc n" using ne by (cases "proxies pm") auto
  ultimately show ?thesis using ne assms(3)
    by (simp add: get_proxy_def Let_def failed_get_def)
qed

theorem get_next_proxy_never_resets_witness:
  "get_next_proxy (Some ''http://10.0.0.2:80'') pool_all_failed = (Inr None, pool_all_failed)
   \<and> failed_get (failed (snd (get_next_proxy (Some ''http://10.0.0.2:80'') pool_all_failed))) ''http://10.0.0.1:80'' = 3
   \<and> failed (snd (get_proxy pool_all_failed)) = Map.empty
   \<and> fst (get_proxy pool_all_failed) = Inr (Some ''http://10.0.0.2:80'')"
proof -
  have h1: "2 \<le> length (proxies pool_all_failed)" by (simp add: pool_all_failed_def)
  have h2: "\<forall>p\<in>set (proxies pool_all_failed). 3 \<le> failed_get (failed pool_all_failed) p"
    by (simp add: pool_all_failed_def failed_get_def)
  have h3: "idx pool_all_failed < length (proxies pool_all_failed)" by (simp add: pool_all_failed_def)
  show ?thesis
    using get_next_proxy_never_resets [OF h1 h2 h3, of "Some ''http://10.0.0.2:80''"]
    by (simp add: pool_all_failed_def failed_get_def)
qed

text \<open>
  C9. While \<open>_refreshing\<close> is true, \<open>auto_refresh\<close> returns without changing the
  pool and without starting a thread. After a first call the flag is true, so a second
  call that follows at once is such a call, and the two calls together start at most
  one thread.
\<close>

theorem auto_refresh_idempotent:
  "(refreshing pm = Some True \<longrightarrow> auto_refresh m pm = (pm, None))
   \<and> auto_refresh m (fst (auto_refresh n pm)) = (fst (auto_refresh n pm), None)
   \<and> length (filter (\<lambda>t. t \<noteq> None)
        [snd (auto_refresh n pm), snd (auto_refresh m (fst (auto_refresh n pm)))]) \<le> 1"
  by (simp add: auto_refresh_def)

theorem auto_refresh_idempotent_witness:
  "refreshing (fst (auto_refresh 5 (init_proxy_manager True))) = Some True
   \<and> snd (auto_refresh 5 (init_proxy_manager True)) = Some 5
   \<and> auto_refresh 5 (fst (auto_refresh 5 (init_proxy_manager True)))
       = (fst (auto_refresh 5 (init_proxy_manager True)), None)"
  using auto_refresh_idempotent [of "fst (auto_refresh 5 (init_proxy_manager True))" 5 5]
  by (simp add: auto_refresh_def init_proxy_manager_def)


text \<open>
  C8, as the code has it. In a collection cycle that collected candidates of which
  the first validation wave validated none, no candidate is adopted: the proxy
  sequence becomes empty when direct connection is allowed and stays as it was when it
  is not; the readiness flag is set and \<open>_refreshing\<close> is cleared. Nothing else of
  the pool changes.
\<close>

theorem refresh_zero_valid:
  assumes "fetched = Some collected" and "collected \<noteq> []"
    and "validate_first (take (min 20 (length collected)) collected) = Some []"
  shows "refresh_background fetched validate_first validate_more count pm =
           pm\<lparr>proxies := (if allow_direct pm then [] else proxies pm),
              is_ready := True, refreshing := Some False\<rparr>"
  using assms by (simp add: refresh_background_def Let_def)

theorem refresh_zero_valid_witness:
  "refresh_background (Some [''http://10.0.0.9:80'']) (\<lambda>cs. Some []) (\<lambda>cs. Some []) 5
      (add_proxy ''http://10.0.0.1:80'' (init_proxy_manager True))
    = \<lparr>proxies = [], failed = Map.empty, idx = 0, pool = [''http://10.0.0.1:80''],
       is_ready = True, allow_direct = True, refreshing = Some False\<rparr>
   \<and> refresh_background (Some [''http://10.0.0.9:80'']) (\<lambda>cs. Some []) (\<lambda>cs. Some []) 5
      pool_manual_no_direct
    = \<lparr>proxies = [''http://10.0.0.1:80''], failed = Map.empty, idx = 0, pool = [''http://10.0.0.1:80''],
       is_ready = True, allow_direct = False, refreshing = Some False\<rparr>"
  using refresh_zero_valid [of "Some [''http://10.0.0.9:80'']" "[''http://10.0.0.9:80'']" "\<lambda>cs. Some []"
          "\<lambda>cs. Some []" 5 "add_proxy ''http://10.0.0.1:80'' (init_proxy_manager True)"]
        refresh_zero_valid [of "Some [''http://10.0.0.9:80'']" "[''http://10.0.0.9:80'']" "\<lambda>cs. Some []"
          "\<lambda>cs. Some []" 5 pool_manual_no_direct]
  by (simp add: pool_manual_no_direct_def add_proxy_def init_proxy_manager_def)

text \<open>
  C8 as stated fails: in a pool that does not allow direct connection, a cycle that
  validates nothing leaves the proxy sequence as it was, here with one proxy.
\<close>

theorem refresh_zero_valid_counterexample:
  "proxies (refresh_background (Some [''http://10.0.0.9:80'']) (\<lambda>cs. Some []) (\<lambda>cs. Some []) 5
      pool_manual_no_direct) = [''http://10.0.0.1:80'']
   \<and> is_ready (refresh_background (Some [''http://10.0.0.9:80'']) (\<lambda>cs. Some []) (\<lambda>cs. Some []) 5
      pool_manual_no_direct)"
  by (simp add: refresh_background_def pool_manual_no_direct_def add_proxy_def init_proxy_manager_def)

text \<open>
  C4. The swap-in of \<open>_refresh_background\<close> assigns the proxy sequence and leaves
  the cursor. After two calls of \<open>get_proxy\<close> on three proxies the cursor is 2; a
  cycle that validates one proxy makes the sequence of length 1; the cursor is still
  2, and the next \<open>get_proxy\<close> raises IndexError, as does \<open>get_next_proxy\<close> once a
  second proxy is added.
\<close>

theorem swap_in_leaves_cursor_out_of_range:
  "idx pool_three_rotated = 2
   \<and> length (proxies pool_three_rotated) = 3
   \<and> idx (refresh_background (Some [''http://10.0.0.8:80'', ''http://10.0.0.9:80''])
            (\<lambda>cs. Some [''http://10.0.0.9:80'']) (\<lambda>cs. Some []) 5 pool_three_rotated) = 2
   \<and> proxies (refresh_background (Some [''http://10.0.0.8:80'', ''http://10.0.0.9:80''])
            (\<lambda>cs. Some [''http://10.0.0.9:80'']) (\<lambda>cs. Some []) 5 pool_three_rotated)
        = [''http://10.0.0.9:80'']
   \<and> fst (get_proxy (refresh_background (Some [''http://10.0.0.8:80'', ''http://10.0.0.9:80''])
            (\<lambda>cs. Some [''http://10.0.0.9:80'']) (\<lambda>cs. Some []) 5 pool_three_rotated))
        = Inl IndexError
   \<and> fst (get_next_proxy None (add_proxy ''http://10.0.0.7:80''
        (refresh_background (Some [''http://10.0.0.8:80'', ''http://10.0.0.9:80''])
            (\<lambda>cs. Some [''http://10.0.0.9:80'']) (\<lambda>cs. Some []) 5 pool_three_rotated)))
        = Inl IndexError"
  by (simp add: pool_three_rotated_def refresh_background_def get_proxy_def get_next_proxy_def
        add_proxy_def init_proxy_manager_def failed_get_def Let_def)

section \<open>Properties of the engine\<close>

subsection \<open>What a call of search keeps\<close>

lemma preserves_return: "preserves P (exn_return a)"
  by (simp add: preserves_def exn_return_def)

lemma preserves_raise: "preserves P (exn_raise err)"
  by (simp add: preserves_def exn_raise_def)

lemma preserves_bind:
  assumes "preserves P m" and "\<And>a. preserves P (f a)"
  shows "preserves P (exn_bind m f)"
proof (unfold preserves_def, intro allI impI)
  fix c assume p: "P c"
  obtain r c' where mc: "m c = (r, c')" by (cases "m c")
  have pc': "P c'" using assms(1) p mc by (auto simp: preserves_def)
  show "P (snd (exn_bind m f c))"
  proof (cases r)
    case (Inl err)
    then show ?thesis using mc pc' by (simp add: exn_bind_def)
  next
    case (Inr a)
    then show ?thesis using mc pc' assms(2) [of a] by (simp add: exn_bind_def preserves_def)
  qed
qed

lemma preserves_catch:
  assumes "preserves P m" and "\<And>err. preserves P (h err)"
  shows "preserves P (exn_catch m h)"
proof (unfold preserves_def, intro allI impI)
  fix c assume p: "P c"
  obtain r c' where mc: "m c = (r, c')" by (cases "m c")
  have pc': "P c'" using assms(1) p mc by (auto simp: preserves_def)
  show "P (snd (exn_catch m h c))"
  proof (cases r)
    case (Inl err)
    then show ?thesis using mc pc' assms(2) [of err] by (simp add: exn_catch_def preserves_def)
  next
    case (Inr a)
    then show ?thesis using mc pc' by (simp add: exn_catch_def)
  qed
qed

lemma preserves_modify: "(\<And>c. P c \<Longrightarrow> P (f c)) \<Longrightarrow> preserves P (modify f)"
  by (simp add: preserves_def modify_def)

lemma preserves_on_pool:
  "(\<And>c pm. P c \<Longrightarrow> P (c\<lparr>proxy_manager := pm\<rparr>)) \<Longrightarrow> preserves P (on_pool f)"
  by (auto simp: preserves_def on_pool_def split: prod.splits)

lemma preserves_cond:
  "preserves P m \<Longrightarrow> preserves P n \<Longrightarrow> preserves P (\<lambda>c. if b c then m c else n c)"
  by (simp add: preserves_def)

lemma preserves_value: "preserves P (\<lambda>c. (r, c))"
  by (simp add: preserves_def)

lemmas preserves_intros = preserves_return preserves_raise preserves_bind preserves_catch
  preserves_modify preserves_on_pool preserves_cond preserves_value

lemma api_client_kept: "preserves (kept m k) api_client"
  unfolding api_client_def
  by (intro preserves_intros) (auto simp: kept_def preserves_def split: option.splits)

lemma web_client_kept: "preserves (kept m k) web_client"
  unfolding web_client_def
  by (intro preserves_intros) (auto simp: kept_def preserves_def split: option.splits)

lemma proxy_failed_kept: "preserves (kept m k) proxy_failed"
  unfolding proxy_failed_def
  by (intro preserves_intros) (auto simp: kept_def preserves_def on_pool_def set_proxy_def split: prod.splits)

lemma api_client_search_kept: "preserves (kept m k) (api_client_search e cl q p)"
  by (auto simp: preserves_def api_client_search_def kept_def Let_def split: api_outcome.splits)

lemma web_make_request_kept: "preserves (kept m k) (web_make_request e cl q p)"
  by (auto simp: preserves_def web_make_request_def kept_def)

lemma web_fetch_kept: "preserves (kept m k) (web_fetch e q p)"
  unfolding web_fetch_def
  by (intro preserves_intros web_client_kept web_make_request_kept)

lemma web_client_times_kept: "preserves (kept m k) (web_client_times n)"
  by (induction n) (auto intro!: preserves_intros web_client_kept)

lemma web_parse_kept: "preserves (kept m k) (web_parse e html)"
  unfolding web_parse_def
  by (auto intro!: preserves_intros web_client_kept web_client_times_kept split: option.splits sum.splits)

lemma stage1_kept: "preserves (kept m k) (stage1 e q p)"
  unfolding stage1_def
  by (auto intro!: preserves_intros api_client_kept api_client_search_kept proxy_failed_kept
           simp: kept_def set_proxy_def split: option.splits)

lemma ensure_proxy_kept: "preserves (kept m k) (ensure_proxy n)"
  by (induction n) (auto intro!: preserves_intros simp: kept_def set_proxy_def)

lemma stage2_request_kept: "preserves (kept m k) (stage2_request e q p)"
  unfolding stage2_request_def
  by (auto intro!: preserves_intros web_fetch_kept web_parse_kept proxy_failed_kept
           simp: kept_def split: option.splits sum.splits prod.splits)


lemma stage3_kept: "WEB \<in> m \<Longrightarrow> preserves (kept m k) (stage3 e q p)"
  unfolding stage3_def
  by (auto intro!: preserves_intros web_fetch_kept web_parse_kept
           simp: kept_def set_proxy_def split: option.splits sum.splits prod.splits)

lemma stage2_kept: "WEB \<in> m \<Longrightarrow> preserves (kept m k) (stage2 e q p)"
  unfolding stage2_def
  by (auto intro!: preserves_intros ensure_proxy_kept stage2_request_kept
           simp: kept_def)

lemma web_stages_kept: "WEB \<in> m \<Longrightarrow> preserves (kept m k) (web_stages e q p mr)"
  unfolding web_stages_def
  by (auto intro!: preserves_intros stage2_kept stage3_kept split: flow.splits)

lemma search_kept: "WEB \<in> m \<Longrightarrow> preserves (kept m k) (search e q p mr)"
  unfolding search_def
  by (auto intro!: preserves_intros stage1_kept web_stages_kept split: flow.splits)

lemma search_end_count: "end_count (config (snd (search e q p mr c))) = end_count (config c)"
  using search_kept [of UNIV "end_count (config c)" e q p mr]
  by (simp add: preserves_def kept_def)

lemma search_mode_web: "mode c = WEB \<Longrightarrow> mode (snd (search e q p mr c)) = WEB"
  using search_kept [of "{WEB}" "end_count (config c)" e q p mr]
  by (simp add: preserves_def kept_def)

lemma stage2_sets_web: "mode (snd (stage2 e q p c)) = WEB"
proof -
  let ?c = "c\<lparr>mode := WEB\<rparr>"
  let ?rest = "exn_bind (ensure_proxy 8) (\<lambda>_.
     (\<lambda>c. if \<not> truthy_str (proxy (config c)) \<and> \<not> allow_direct (proxy_manager c)
           then (Inr (Return None), c)
           else stage2_request e q p c))"
  have "preserves (kept {WEB} (end_count (config c))) ?rest"
    by (auto intro!: preserves_intros ensure_proxy_kept stage2_request_kept)
  then have "mode (snd (?rest ?c)) = WEB" by (simp add: preserves_def kept_def)
  moreover have "stage2 e q p c = ?rest ?c"
    by (simp add: stage2_def exn_bind_def modify_def)
  ultimately show ?thesis by simp
qed

lemma web_stages_mode:
  assumes "mode c = AUTO \<or> mode c = WEB"
  shows "mode (snd (web_stages e q p mr c)) = WEB"
proof -
  obtain r2 c2 where s2: "stage2 e q p c = (r2, c2)" by (cases "stage2 e q p c")
  have m2: "mode c2 = WEB" using stage2_sets_web [of e q p c] s2 by simp
  let ?k = "\<lambda>r2. case r2 of
         Return v \<Rightarrow> exn_return v
       | Next \<Rightarrow>
           exn_bind (if 1 < mr then stage3 e q p else exn_return Next) (\<lambda>r3.
             case r3 of
               Return v \<Rightarrow> exn_return v
             | Next \<Rightarrow> exn_return None)"
  have k: "preserves (kept {WEB} (end_count (config c2))) (?k a)" for a
    by (auto intro!: preserves_intros stage3_kept split: flow.splits)
  show ?thesis
  proof (cases r2)
    case (Inl err)
    then show ?thesis using assms s2 m2 by (auto simp: web_stages_def exn_bind_def)
  next
    case (Inr a)
    have "mode (snd (?k a c2)) = WEB" using k [of a] m2 by (simp add: preserves_def kept_def)
    then show ?thesis using assms s2 Inr by (auto simp: web_stages_def exn_bind_def)
  qed
qed


subsection \<open>Evaluation on given states\<close>

lemmas engine_defs =
  search_def web_stages_def stage1_def stage2_def stage2_request_def stage3_def
  web_fetch_def web_parse_def web_make_request_def
  api_client_search_def api_client_def web_client_def proxy_failed_def set_proxy_def
  exn_bind_def exn_catch_def exn_return_def exn_raise_def modify_def on_pool_def
  is_transport_error_def is_ban_response_def is_ban_html_def web_response_def
  lower_def lower_char_def abnormal_access_def crawler_def access_forbidden_def
  verification_code_def truthy_str_def
  get_proxy_def get_next_proxy_def mark_failed_def mark_success_def failed_get_def
  init_client_def init_proxy_manager_def add_proxy_def Let_def

lemma ensure_proxy_numeral:
  "ensure_proxy (numeral k) =
     exn_bind (on_pool get_proxy) (\<lambda>current_proxy.
       if truthy_str current_proxy
       then modify (\<lambda>c. (set_proxy current_proxy c)\<lparr>cached_web_client := None\<rparr>)
       else ensure_proxy (pred_numeral k))"
  by (simp add: numeral_eq_Suc)

lemma web_client_times_numeral:
  "web_client_times (numeral k) = exn_bind web_client (\<lambda>_. web_client_times (pred_numeral k))"
  by (simp add: numeral_eq_Suc)

lemmas eval_defs = engine_defs ensure_proxy_numeral web_client_times_numeral

subsection \<open>Stage 1\<close>

text \<open>
  Stage 1 when both reads of the pool return and the signed client returns a response
  that is no ban.
\<close>

lemma stage1_good_response:
  assumes "mode c = API \<or> mode c = AUTO"
    and "get_proxy (proxy_manager c) = (Inr p1, pm1)"
    and "get_proxy pm1 = (Inr p2, pm2)"
    and "api_search e (length (requests c)) p2 query pg = ApiReturns (Some r)"
    and "\<not> is_ban_response r"
  shows "stage1 e query pg c =
     (case data r of
        None \<Rightarrow> (Inr Next, c\<lparr>config := (config c)\<lparr>proxy := p1\<rparr>, proxy_manager := pm2,
                    cached_api_client := Some p2, total := total c + 1,
                    requests := requests c @ [ApiRequest p2 query pg]\<rparr>)
      | Some d \<Rightarrow>
          if assets d \<noteq> [] then
            (Inr (Return (Some r)), c\<lparr>config := (config c)\<lparr>proxy := p1\<rparr>,
                    proxy_manager := mark_success p1 pm2,
                    cached_api_client := Some p2, total := total c + 1, success := success c + 1,
                    requests := requests c @ [ApiRequest p2 query pg]\<rparr>)
          else (Inr Next, c\<lparr>config := (config c)\<lparr>proxy := p1\<rparr>, proxy_manager := pm2,
                    cached_api_client := Some p2, total := total c + 1,
                    requests := requests c @ [ApiRequest p2 query pg]\<rparr>))"
  using assms(2-5)
  by (auto simp: stage1_def exn_catch_def exn_bind_def exn_return_def modify_def on_pool_def
        api_client_def api_client_search_def set_proxy_def Let_def
        split: option.splits)


text \<open>
  C1, as the code has it. Let the two calls of \<open>get_proxy\<close> of stage 1 return and the
  signed client return a response that is not classified as a ban. In mode API or AUTO,
  if the assets of the response are not empty, \<open>search\<close> returns that response; the
  success counter is one more, \<open>mark_success\<close> was applied to the assigned proxy, and no
  request went to the anonymous endpoint. If there are no assets, in mode AUTO
  \<open>search\<close> goes on with stage 2 and the mode is WEB when it ends; in mode API stage 2
  is skipped and \<open>search\<close> goes on with the condition of stage 3.
\<close>

theorem search_api_stage:
  assumes "get_proxy (proxy_manager c) = (Inr p1, pm1)"
    and "get_proxy pm1 = (Inr p2, pm2)"
    and "api_search e (length (requests c)) p2 query pg = ApiReturns (Some r)"
    and "\<not> is_ban_response r"
  shows "((mode c = API \<or> mode c = AUTO) \<and> data r = Some d \<and> assets d \<noteq> [] \<longrightarrow>
           search e query pg mr c =
             (Inr (Some r), (after_api_request c p1 pm2 p2 query pg)
                \<lparr>success := success c + 1, proxy_manager := mark_success p1 pm2\<rparr>)
           \<and> success (snd (search e query pg mr c)) = success c + 1
           \<and> proxy_manager (snd (search e query pg mr c))
               = mark_success (proxy (config (snd (search e query pg mr c)))) pm2
           \<and> filter is_web_request (requests (snd (search e query pg mr c)))
               = filter is_web_request (requests c))
       \<and> (mode c = AUTO \<and> (data r = None \<or> (\<exists>d'. data r = Some d' \<and> assets d' = [])) \<longrightarrow>
           search e query pg mr c = web_stages e query pg mr (after_api_request c p1 pm2 p2 query pg)
           \<and> mode (after_api_request c p1 pm2 p2 query pg) = AUTO
           \<and> mode (snd (search e query pg mr c)) = WEB)
       \<and> (mode c = API \<and> (data r = None \<or> (\<exists>d'. data r = Some d' \<and> assets d' = [])) \<longrightarrow>
           search e query pg mr c =
             exn_bind (if 1 < mr then stage3 e query pg else exn_return Next)
               (\<lambda>r3. case r3 of Return v \<Rightarrow> exn_return v | Next \<Rightarrow> exn_return None)
               (after_api_request c p1 pm2 p2 query pg))"
proof -
  note s1 = stage1_good_response [OF _ assms]
  have a: "(mode c = API \<or> mode c = AUTO) \<and> data r = Some d \<and> assets d \<noteq> [] \<longrightarrow>
           search e query pg mr c =
             (Inr (Some r), (after_api_request c p1 pm2 p2 query pg)
                \<lparr>success := success c + 1, proxy_manager := mark_success p1 pm2\<rparr>)"
    using s1 by (auto simp: search_def exn_bind_def exn_return_def after_api_request_def)
  have b: "mode c = AUTO \<and> (data r = None \<or> (\<exists>d'. data r = Some d' \<and> assets d' = [])) \<longrightarrow>
           search e query pg mr c = web_stages e query pg mr (after_api_request c p1 pm2 p2 query pg)"
    using s1 by (auto simp: search_def exn_bind_def exn_return_def after_api_request_def)
  have b': "mode (after_api_request c p1 pm2 p2 query pg) = mode c"
    by (simp add: after_api_request_def)
  have c: "mode c = API \<and> (data r = None \<or> (\<exists>d'. data r = Some d' \<and> assets d' = [])) \<longrightarrow>
           search e query pg mr c =
             exn_bind (if 1 < mr then stage3 e query pg else exn_return Next)
               (\<lambda>r3. case r3 of Return v \<Rightarrow> exn_return v | Next \<Rightarrow> exn_return None)
               (after_api_request c p1 pm2 p2 query pg)"
    using s1 by (auto simp: search_def web_stages_def exn_bind_def exn_return_def after_api_request_def)
  show ?thesis
    using a b b' c web_stages_mode [of "after_api_request c p1 pm2 p2 query pg" e query pg mr]
    by (auto simp: after_api_request_def)
qed


theorem search_api_stage_witness:
  "search env_api_one ''port=80'' 1 3 (init_client config_20 [])
     = (Inr (Some \<lparr>code = 200, message = ''success'',
          data = Some \<lparr>assets = [asset_a], reported_total = IntTotal 1, page_number = 1\<rparr>\<rparr>),
        (init_client config_20 [])\<lparr>cached_api_client := Some None, total := 1, success := 1,
           requests := [ApiRequest None ''port=80'' 1]\<rparr>)
   \<and> mode (snd (search env_api_empty ''port=80'' 1 3 (init_client config_20 []))) = WEB
   \<and> requests (snd (search env_api_empty ''port=80'' 1 3 (init_client config_20 [])))
       = [ApiRequest None ''port=80'' 1, WebRequest None ''port=80'' 1]"
proof -
  let ?c = "init_client config_20 []"
  let ?pm = "init_proxy_manager True"
  let ?r1 = "\<lparr>code = 200, message = ''success'',
          data = Some \<lparr>assets = [asset_a], reported_total = IntTotal 1, page_number = 1\<rparr>\<rparr>"
  let ?r0 = "\<lparr>code = 200, message = ''success'',
          data = Some \<lparr>assets = [], reported_total = IntTotal 0, page_number = 1\<rparr>\<rparr>"
  have g1: "get_proxy (proxy_manager ?c) = (Inr None, ?pm)"
    by (simp add: init_client_def get_proxy_def init_proxy_manager_def)
  have g2: "get_proxy ?pm = (Inr None, ?pm)"
    by (simp add: get_proxy_def init_proxy_manager_def)
  have a1: "api_search env_api_one (length (requests ?c)) None ''port=80'' 1 = ApiReturns (Some ?r1)"
    by (simp add: env_api_one_def)
  have a0: "api_search env_api_empty (length (requests ?c)) None ''port=80'' 1 = ApiReturns (Some ?r0)"
    by (simp add: env_api_empty_def)
  have n1: "\<not> is_ban_response ?r1" by (simp add: eval_defs)
  have n0: "\<not> is_ban_response ?r0" by (simp add: eval_defs)
  have m: "mode ?c = AUTO" by (simp add: init_client_def)
  have w: "web_stages env_api_empty ''port=80'' 1 3 (after_api_request ?c None ?pm None ''port=80'' 1)
      = (Inr None, (init_client config_20 [])\<lparr>mode := WEB, cached_api_client := Some None,
           cached_web_client := Some None, total := 2, failed_count := 1,
           requests := [ApiRequest None ''port=80'' 1, WebRequest None ''port=80'' 1]\<rparr>)"
    by (simp add: eval_defs after_api_request_def env_api_empty_def config_20_def)
  show ?thesis
    using search_api_stage [OF g1 g2 a1 n1, of "\<lparr>assets = [asset_a], reported_total = IntTotal 1, page_number = 1\<rparr>" 3]
      search_api_stage [OF g1 g2 a0 n0, of undefined 3] m w
    by (simp add: after_api_request_def init_client_def init_proxy_manager_def mark_success_def
          config_20_def)
qed


text \<open>
  C1 as stated fails in mode API: the signed client returns a response without assets
  that is no ban, and \<open>search\<close> returns none without a request to the anonymous
  endpoint; the mode is still API.
\<close>

theorem search_api_stage_counterexample:
  "fst (search env_api_empty ''port=80'' 1 3 ((init_client config_20 [])\<lparr>mode := API\<rparr>)) = Inr None
   \<and> mode (snd (search env_api_empty ''port=80'' 1 3 ((init_client config_20 [])\<lparr>mode := API\<rparr>))) = API
   \<and> requests (snd (search env_api_empty ''port=80'' 1 3 ((init_client config_20 [])\<lparr>mode := API\<rparr>)))
       = [ApiRequest None ''port=80'' 1]"
  by (simp add: eval_defs env_api_empty_def config_20_def)

subsection \<open>The pool under the cursor invariant\<close>

text \<open>
  While the cursor is an index of the proxy sequence, the methods of the pool return
  and keep it so.
\<close>

lemma get_proxy_loop_ok:
  assumes "idx pm < length (proxies pm)"
  shows "\<exists>r pm'. get_proxy_loop n pm = (Inr r, pm') \<and> idx pm' < length (proxies pm')
           \<and> proxies pm' = proxies pm \<and> allow_direct pm' = allow_direct pm"
  using assms
proof (induction n arbitrary: pm)
  case 0
  then show ?case by simp
next
  case (Suc n)
  let ?pm' = "pm\<lparr>idx := (idx pm + 1) mod length (proxies pm)\<rparr>"
  have pos: "0 < length (proxies pm)" using Suc.prems by linarith
  have lt: "idx ?pm' < length (proxies ?pm')" using pos by simp
  from Suc.IH [OF lt] obtain r pm'' where
    "get_proxy_loop n ?pm' = (Inr r, pm'')" "idx pm'' < length (proxies pm'')"
    "proxies pm'' = proxies pm" "allow_direct pm'' = allow_direct pm" by auto
  then show ?case using Suc.prems pos by (auto simp: Let_def)
qed

lemma get_next_loop_ok:
  assumes "idx pm < length (proxies pm)"
  shows "\<exists>r pm'. get_next_loop n cur pm = (Inr r, pm') \<and> idx pm' < length (proxies pm')
           \<and> proxies pm' = proxies pm \<and> allow_direct pm' = allow_direct pm"
  using assms
proof (induction n arbitrary: pm)
  case 0
  then show ?case by simp
next
  case (Suc n)
  let ?pm' = "pm\<lparr>idx := (idx pm + 1) mod length (proxies pm)\<rparr>"
  have pos: "0 < length (proxies pm)" using Suc.prems by linarith
  have lt: "idx ?pm' < length (proxies ?pm')" using pos by simp
  from Suc.IH [OF lt] obtain r pm'' where
    "get_next_loop n cur ?pm' = (Inr r, pm'')" "idx pm'' < length (proxies pm'')"
    "proxies pm'' = proxies pm" "allow_direct pm'' = allow_direct pm" by auto
  then show ?case using Suc.prems pos by (auto simp: Let_def)
qed

lemma get_proxy_ok:
  assumes "cursor_ok pm"
  shows "\<exists>r pm'. get_proxy pm = (Inr r, pm') \<and> cursor_ok pm'
           \<and> proxies pm' = proxies pm \<and> allow_direct pm' = allow_direct pm"
proof (cases "proxies pm = []")
  case True
  then show ?thesis using assms by (simp add: get_proxy_def)
next
  case False
  let ?pm1 = "if proxies pm \<noteq> [] \<and> list_all (\<lambda>p. 3 \<le> failed_get (failed pm) p) (proxies pm)
                    then pm\<lparr>failed := Map.empty\<rparr> else pm"
  have lt: "idx ?pm1 < length (proxies ?pm1)" using assms False by (auto simp: cursor_ok_def)
  from get_proxy_loop_ok [OF lt, of "length (proxies ?pm1)"] obtain r pm' where
    l: "get_proxy_loop (length (proxies ?pm1)) ?pm1 = (Inr r, pm')" "idx pm' < length (proxies pm')"
    "proxies pm' = proxies ?pm1" "allow_direct pm' = allow_direct ?pm1" by blast
  have "get_proxy pm = (Inr r, pm')" using False l(1) by (simp add: get_proxy_def Let_def)
  moreover have "cursor_ok pm'" using l(2) by (simp add: cursor_ok_def)
  moreover have "proxies pm' = proxies pm" "allow_direct pm' = allow_direct pm"
    using l(3,4) by (auto split: if_splits)
  ultimately show ?thesis by blast
qed

lemma get_next_proxy_ok:
  assumes "cursor_ok pm"
  shows "\<exists>r pm'. get_next_proxy cur pm = (Inr r, pm') \<and> cursor_ok pm'
           \<and> proxies pm' = proxies pm \<and> allow_direct pm' = allow_direct pm"
proof (cases "proxies pm = [] \<or> length (proxies pm) = 1")
  case True
  then show ?thesis using assms by (auto simp: get_next_proxy_def)
next
  case False
  have lt: "idx pm < length (proxies pm)" using assms False by (auto simp: cursor_ok_def)
  from get_next_loop_ok [OF lt, of "length (proxies pm)" cur] obtain r pm' where
    l: "get_next_loop (length (proxies pm)) cur pm = (Inr r, pm')" "idx pm' < length (proxies pm')"
    "proxies pm' = proxies pm" "allow_direct pm' = allow_direct pm" by blast
  have c: "cursor_ok pm'" using l(2) by (simp add: cursor_ok_def)
  show ?thesis
  proof (cases r)
    case None
    then show ?thesis using False l c by (auto simp: get_next_proxy_def)
  next
    case (Some a)
    then show ?thesis using False l c by (auto simp: get_next_proxy_def)
  qed
qed

lemma mark_failed_ok: "cursor_ok (mark_failed p pm) = cursor_ok pm"
  "allow_direct (mark_failed p pm) = allow_direct pm" "proxies (mark_failed p pm) = proxies pm"
  by (auto simp: mark_failed_def cursor_ok_def split: option.splits)

lemma mark_success_ok: "cursor_ok (mark_success p pm) = cursor_ok pm"
  "allow_direct (mark_success p pm) = allow_direct pm" "proxies (mark_success p pm) = proxies pm"
  by (auto simp: mark_success_def cursor_ok_def split: option.splits)

lemma add_proxy_ok: "cursor_ok pm \<Longrightarrow> cursor_ok (add_proxy p pm)"
  by (auto simp: add_proxy_def cursor_ok_def)

subsection \<open>Runs without exception\<close>

lemma runs_bind:
  assumes "runs P m Q" and "\<And>a. runs (Q a) (f a) R"
  shows "runs P (exn_bind m f) R"
proof (unfold runs_def, intro allI impI)
  fix c assume "P c"
  then obtain a c' where m: "m c = (Inr a, c')" "Q a c'" using assms(1) by (auto simp: runs_def)
  then obtain b c'' where "f a c' = (Inr b, c'')" "R b c''" using assms(2) [of a] by (auto simp: runs_def)
  then show "\<exists>b c''. exn_bind m f c = (Inr b, c'') \<and> R b c''" using m by (simp add: exn_bind_def)
qed

lemma runs_catch: "runs P m Q \<Longrightarrow> runs P (exn_catch m h) Q"
  by (fastforce simp: runs_def exn_catch_def)

lemma runs_return: "(\<And>c. P c \<Longrightarrow> Q a c) \<Longrightarrow> runs P (exn_return a) Q"
  by (simp add: runs_def exn_return_def)

lemma runs_modify: "(\<And>c. P c \<Longrightarrow> Q () (f c)) \<Longrightarrow> runs P (modify f) Q"
  by (simp add: runs_def modify_def)

lemma runs_weaken: "runs P m Q \<Longrightarrow> (\<And>c. P' c \<Longrightarrow> P c) \<Longrightarrow> (\<And>a c. Q a c \<Longrightarrow> Q' a c) \<Longrightarrow> runs P' m Q'"
  by (fastforce simp: runs_def)

lemma runs_assume: "(A \<Longrightarrow> runs P m Q) \<Longrightarrow> runs (\<lambda>c. A \<and> P c) m Q"
  by (auto simp: runs_def)

lemma runs_get_proxy: "runs (engine_inv m) (on_pool get_proxy) (\<lambda>_. engine_inv m)"
proof (unfold runs_def, intro allI impI)
  fix c assume i: "engine_inv m c"
  then have "cursor_ok (proxy_manager c)" by (simp add: engine_inv_def pool_inv_def)
  from get_proxy_ok [OF this] obtain r pm' where
    "get_proxy (proxy_manager c) = (Inr r, pm')" "cursor_ok pm'" "allow_direct pm' = allow_direct (proxy_manager c)"
    by blast
  then show "\<exists>a c'. on_pool get_proxy c = (Inr a, c') \<and> engine_inv m c'"
    using i by (simp add: on_pool_def engine_inv_def pool_inv_def)
qed

lemma runs_get_next_proxy: "runs (engine_inv m) (on_pool (get_next_proxy cur)) (\<lambda>_. engine_inv m)"
proof (unfold runs_def, intro allI impI)
  fix c assume i: "engine_inv m c"
  then have "cursor_ok (proxy_manager c)" by (simp add: engine_inv_def pool_inv_def)
  from get_next_proxy_ok [OF this, of cur] obtain r pm' where
    "get_next_proxy cur (proxy_manager c) = (Inr r, pm')" "cursor_ok pm'" "allow_direct pm' = allow_direct (proxy_manager c)"
    by blast
  then show "\<exists>a c'. on_pool (get_next_proxy cur) c = (Inr a, c') \<and> engine_inv m c'"
    using i by (simp add: on_pool_def engine_inv_def pool_inv_def)
qed

lemma runs_web_client: "runs (engine_inv m) web_client (\<lambda>_. engine_inv m)"
  unfolding web_client_def
  apply (rule runs_bind [OF runs_get_proxy])
  apply (rule runs_bind [where Q = "\<lambda>_. engine_inv m"])
   apply (rule runs_modify, simp add: engine_inv_def)
  apply (rule runs_bind [where Q = "\<lambda>_. engine_inv m"])
   apply (rule runs_modify, simp add: engine_inv_def)
  apply (auto simp: runs_def split: option.splits)
  done

lemma runs_api_client: "runs (engine_inv m) api_client (\<lambda>_. engine_inv m)"
  unfolding api_client_def
  apply (rule runs_bind [OF runs_get_proxy])
  apply (rule runs_bind [where Q = "\<lambda>_. engine_inv m"])
   apply (rule runs_modify, simp add: engine_inv_def)
  apply (rule runs_bind [where Q = "\<lambda>_. engine_inv m"])
   apply (rule runs_modify, simp add: engine_inv_def)
  apply (auto simp: runs_def split: option.splits)
  done

lemma runs_proxy_failed: "runs (engine_inv m) proxy_failed (\<lambda>_. engine_inv m)"
  unfolding proxy_failed_def
  apply (rule runs_bind [where Q = "\<lambda>_. engine_inv m"])
   apply (rule runs_modify, simp add: engine_inv_def pool_inv_def mark_failed_ok)
  apply (rule runs_bind [where Q = "\<lambda>_. engine_inv m"])
   apply (rule runs_modify, simp add: engine_inv_def)
  apply (rule runs_bind [where Q = "\<lambda>_. engine_inv m"])
   apply (insert runs_get_next_proxy [of m], simp add: runs_def)[1]
  apply (rule runs_modify, simp add: engine_inv_def set_proxy_def)
  done

lemma runs_web_client_times: "runs (engine_inv m) (web_client_times n) (\<lambda>_. engine_inv m)"
proof (induction n)
  case 0
  then show ?case by (simp add: runs_return)
next
  case (Suc n)
  show ?case by (simp, rule runs_bind [OF runs_web_client], rule Suc.IH)
qed

lemma runs_ensure_proxy: "runs (engine_inv m) (ensure_proxy n) (\<lambda>_. engine_inv m)"
proof (induction n)
  case 0
  then show ?case by (simp add: runs_return)
next
  case (Suc n)
  show ?case
    apply simp
    apply (rule runs_bind [OF runs_get_proxy])
    apply (auto intro!: Suc.IH)
    apply (rule runs_modify, simp add: engine_inv_def set_proxy_def)
    done
qed

lemma runs_api_ban:
  assumes "\<forall>n cl. api_search e n cl query pg = ApiReturns None
             \<or> (\<exists>r. api_search e n cl query pg = ApiReturns (Some r) \<and> is_ban_response r)"
  shows "runs (engine_inv m) (api_client_search e cl query pg)
           (\<lambda>resp c. engine_inv m c \<and> (resp = None \<or> (\<exists>r. resp = Some r \<and> is_ban_response r)))"
proof (unfold runs_def, intro allI impI)
  fix c assume i: "engine_inv m c"
  from assms have "api_search e (length (requests c)) cl query pg = ApiReturns None
             \<or> (\<exists>r. api_search e (length (requests c)) cl query pg = ApiReturns (Some r) \<and> is_ban_response r)"
    by blast
  then show "\<exists>a c'. api_client_search e cl query pg c = (Inr a, c') \<and>
              (engine_inv m c' \<and> (a = None \<or> (\<exists>r. a = Some r \<and> is_ban_response r)))"
    using i by (auto simp: api_client_search_def Let_def engine_inv_def)
qed

lemma runs_ban_branch:
  "runs (engine_inv m)
     (exn_bind (modify (\<lambda>c. c\<lparr>ban_count := ban_count c + 1\<rparr>)) (\<lambda>_.
      exn_bind proxy_failed (\<lambda>_. exn_return Next)))
     (\<lambda>r c. r = Next \<and> engine_inv m c)"
  apply (rule runs_bind [where Q = "\<lambda>_. engine_inv m"])
   apply (rule runs_modify, simp add: engine_inv_def)
  apply (rule runs_bind [OF runs_proxy_failed])
  apply (rule runs_return, simp)
  done

lemma runs_stage1_ban:
  assumes "\<forall>n cl. api_search e n cl query pg = ApiReturns None
             \<or> (\<exists>r. api_search e n cl query pg = ApiReturns (Some r) \<and> is_ban_response r)"
  shows "runs (engine_inv m) (stage1 e query pg) (\<lambda>r c. r = Next \<and> engine_inv m c)"
  unfolding stage1_def
  apply (rule runs_catch)
  apply (rule runs_bind [where Q = "\<lambda>_. engine_inv m"])
   apply (rule runs_modify, simp add: engine_inv_def)
  apply (rule runs_bind [OF runs_get_proxy])
  apply (rule runs_bind [where Q = "\<lambda>_. engine_inv m"])
   apply (rule runs_modify, simp add: engine_inv_def set_proxy_def)
  apply (rule runs_bind [OF runs_api_client])
  apply (rule runs_bind [OF runs_api_ban [OF assms]])
  subgoal for u1 p1 u2 cl resp
    using runs_ban_branch [of m]
    by (cases resp) (auto simp: runs_def)
  done

lemma runs_web_fetch:
  assumes "\<forall>n cl. make_request e n cl query pg = Some html"
  shows "runs (engine_inv m) (web_fetch e query pg) (\<lambda>h c. h = Some html \<and> engine_inv m c)"
  unfolding web_fetch_def
  apply (rule runs_bind [OF runs_web_client])
  apply (rule runs_bind [OF runs_web_client])
  using assms apply (simp add: runs_def web_make_request_def engine_inv_def)
  done

lemma runs_web_parse:
  assumes "parse_page e html = Some d" and "page_results d = Inr rs"
  shows "runs (engine_inv m) (web_parse e html) (\<lambda>r c. r = Some (d, rs) \<and> engine_inv m c)"
  unfolding web_parse_def
  apply (rule runs_bind [OF runs_web_client])
  apply (simp add: assms)
  apply (rule runs_bind [OF runs_web_client])
  apply (rule runs_bind [OF runs_web_client_times])
  apply (rule runs_return, simp)
  done

lemma runs_success_branch:
  assumes "page_total d = Inr t"
  shows "runs (engine_inv m)
     (exn_bind (modify (\<lambda>c. c\<lparr>success := success c + 1\<rparr>)) (\<lambda>_.
      exn_bind (modify (\<lambda>c. c\<lparr>proxy_manager :=
                  mark_success (proxy (config c)) (proxy_manager c)\<rparr>)) (\<lambda>_.
        case page_total d of
          Inl err \<Rightarrow> exn_raise err
        | Inr None \<Rightarrow>
            exn_return (Return (Some (web_response rs (IntTotal (int (length rs))) pg)))
        | Inr (Some tot) \<Rightarrow>
            exn_return (Return (Some (web_response rs tot pg))))))
     (\<lambda>r c. r = Return (Some (web_response rs (total_of t (length rs)) pg)) \<and> engine_inv m c)"
  apply (rule runs_bind [where Q = "\<lambda>_. engine_inv m"])
   apply (rule runs_modify, simp add: engine_inv_def)
  apply (rule runs_bind [where Q = "\<lambda>_. engine_inv m"])
   apply (rule runs_modify, simp add: engine_inv_def pool_inv_def mark_success_ok)
  apply (cases t)
   apply (simp_all add: assms total_of_def)
   apply (rule runs_return, simp)
  apply (rule runs_return, simp)
  done

lemma runs_stage2_request:
  assumes "\<forall>n cl. make_request e n cl query pg = Some html"
    and "html \<noteq> []" and "\<not> is_ban_html html"
    and "parse_page e html = Some d" and "page_results d = Inr rs" and "rs \<noteq> []"
    and "page_total d = Inr t"
  shows "runs (engine_inv m) (stage2_request e query pg)
           (\<lambda>r c. r = Return (Some (web_response rs (total_of t (length rs)) pg)) \<and> engine_inv m c)"
  unfolding stage2_request_def
  apply (rule runs_catch)
  apply (rule runs_bind [where Q = "\<lambda>_. engine_inv m"])
   apply (rule runs_modify, simp add: engine_inv_def)
  apply (rule runs_bind [OF runs_web_fetch [OF assms(1)]])
  apply (rule runs_assume)
  apply (simp add: truthy_str_def assms(2,3))
  apply (rule runs_bind [OF runs_web_parse [OF assms(4,5)]])
  apply (rule runs_assume)
  apply (insert runs_success_branch [OF assms(7), of m rs pg])
  apply (simp add: assms(6))
  done

lemma runs_stage2:
  assumes "\<forall>n cl. make_request e n cl query pg = Some html"
    and "html \<noteq> []" and "\<not> is_ban_html html"
    and "parse_page e html = Some d" and "page_results d = Inr rs" and "rs \<noteq> []"
    and "page_total d = Inr t"
  shows "runs (engine_inv m) (stage2 e query pg)
           (\<lambda>r c. r = Return (Some (web_response rs (total_of t (length rs)) pg)) \<and> engine_inv WEB c)"
  unfolding stage2_def
  apply (rule runs_bind [where Q = "\<lambda>_. engine_inv WEB"])
   apply (rule runs_modify, simp add: engine_inv_def)
  apply (rule runs_bind [OF runs_ensure_proxy])
  using runs_stage2_request [OF assms, of WEB]
  apply (auto simp: runs_def engine_inv_def pool_inv_def)
  done

lemma search_ban_then_web:
  assumes "mode c = AUTO" and "cursor_ok (proxy_manager c)" and "allow_direct (proxy_manager c)"
    and "\<forall>n cl. api_search e n cl query pg = ApiReturns None
             \<or> (\<exists>r. api_search e n cl query pg = ApiReturns (Some r) \<and> is_ban_response r)"
    and "\<forall>n cl. make_request e n cl query pg = Some html"
    and "html \<noteq> []" and "\<not> is_ban_html html"
    and "parse_page e html = Some d" and "page_results d = Inr rs" and "rs \<noteq> []"
    and "page_total d = Inr t"
  shows "fst (search e query pg mr c) = Inr (Some (web_response rs (total_of t (length rs)) pg))
         \<and> mode (snd (search e query pg mr c)) = WEB"
proof -
  have i: "engine_inv AUTO c" using assms(1-3) by (simp add: engine_inv_def pool_inv_def)
  from runs_stage1_ban [OF assms(4), of AUTO] i obtain c1 where
    s1: "stage1 e query pg c = (Inr Next, c1)" and i1: "engine_inv AUTO c1"
    by (auto simp: runs_def)
  from runs_stage2 [OF assms(5-11), of AUTO] i1 obtain c2 where
    s2: "stage2 e query pg c1 = (Inr (Return (Some (web_response rs (total_of t (length rs)) pg))), c2)"
    and i2: "engine_inv WEB c2"
    by (auto simp: runs_def)
  have "search e query pg mr c = (Inr (Some (web_response rs (total_of t (length rs)) pg)), c2)"
    using assms(1) s1 s2 i1
    by (simp add: search_def web_stages_def exn_bind_def exn_return_def engine_inv_def)
  then show ?thesis using i2 by (simp add: engine_inv_def)
qed

lemma searches_mode_web: "mode c = WEB \<Longrightarrow> mode (searches e calls c) = WEB"
proof (induction calls arbitrary: c)
  case Nil
  then show ?case by simp
next
  case (Cons call calls)
  obtain q p mr where call: "call = (q, p, mr)" by (cases call)
  have "mode (snd (search e q p mr c)) = WEB" using Cons.prems by (rule search_mode_web)
  then show ?case using Cons.IH call by simp
qed

text \<open>
  What holds of the mode, and of a ban followed by a page of five results. A call of
  \<open>search\<close> in mode WEB, or in mode AUTO when stage 1 ends without a \<open>return\<close>,
  leaves the mode WEB. From mode WEB every sequence of calls of \<open>search\<close> leaves the
  mode WEB: none sets it back to AUTO. Starting in mode AUTO with the pool in order and
  direct connection allowed, if the signed client answers with a ban signal (none, or
  a response classified as a ban) and the anonymous client answers with a page that is
  no ban, parses to five results and whose lookup of the total returns, then
  \<open>search(query, 1)\<close> returns a response whose assets are those five results, and the
  mode is WEB.
\<close>

lemma mode_web_is_kept:
  "(mode c = WEB \<or> (mode c = AUTO \<and> fst (stage1 e query pg c) = Inr Next) \<longrightarrow>
      mode (snd (search e query pg mr c)) = WEB)
   \<and> (mode c = WEB \<longrightarrow> mode (searches e calls c) = WEB)
   \<and> (mode c = AUTO \<and> cursor_ok (proxy_manager c) \<and> allow_direct (proxy_manager c)
       \<and> (\<forall>n cl. api_search e n cl query 1 = ApiReturns None
             \<or> (\<exists>r. api_search e n cl query 1 = ApiReturns (Some r) \<and> is_ban_response r))
       \<and> (\<forall>n cl. make_request e n cl query 1 = Some html)
       \<and> html \<noteq> [] \<and> \<not> is_ban_html html
       \<and> parse_page e html = Some d \<and> page_results d = Inr rs \<and> length rs = 5
       \<and> page_total d = Inr t \<longrightarrow>
      fst (search e query 1 mr c) = Inr (Some (web_response rs (total_of t 5) 1))
      \<and> map_option assets (data (web_response rs (total_of t 5) 1)) = Some rs
      \<and> mode (snd (search e query 1 mr c)) = WEB)"
proof -
  have a: "mode c = WEB \<or> (mode c = AUTO \<and> fst (stage1 e query pg c) = Inr Next) \<longrightarrow>
      mode (snd (search e query pg mr c)) = WEB"
  proof (intro impI, elim disjE conjE)
    assume "mode c = WEB"
    then show "mode (snd (search e query pg mr c)) = WEB" by (rule search_mode_web)
  next
    assume m: "mode c = AUTO" and n: "fst (stage1 e query pg c) = Inr Next"
    obtain c1 where s1: "stage1 e query pg c = (Inr Next, c1)" using n by (cases "stage1 e query pg c") auto
    have "mode c1 = AUTO"
      using stage1_kept [of "{AUTO}" "end_count (config c)" e query pg] m s1
      by (auto simp: preserves_def kept_def)
    then have "mode (snd (web_stages e query pg mr c1)) = WEB" by (simp add: web_stages_mode)
    moreover have "search e query pg mr c = web_stages e query pg mr c1"
      using m s1 by (simp add: search_def exn_bind_def)
    ultimately show "mode (snd (search e query pg mr c)) = WEB" by simp
  qed
  have b: "mode c = WEB \<longrightarrow> mode (searches e calls c) = WEB"
    by (simp add: searches_mode_web)
  have c: "mode c = AUTO \<and> cursor_ok (proxy_manager c) \<and> allow_direct (proxy_manager c)
       \<and> (\<forall>n cl. api_search e n cl query 1 = ApiReturns None
             \<or> (\<exists>r. api_search e n cl query 1 = ApiReturns (Some r) \<and> is_ban_response r))
       \<and> (\<forall>n cl. make_request e n cl query 1 = Some html)
       \<and> html \<noteq> [] \<and> \<not> is_ban_html html
       \<and> parse_page e html = Some d \<and> page_results d = Inr rs \<and> length rs = 5
       \<and> page_total d = Inr t \<longrightarrow>
      fst (search e query 1 mr c) = Inr (Some (web_response rs (total_of t 5) 1))
      \<and> map_option assets (data (web_response rs (total_of t 5) 1)) = Some rs
      \<and> mode (snd (search e query 1 mr c)) = WEB"
  proof (intro impI, elim conjE)
    assume h: "mode c = AUTO" "cursor_ok (proxy_manager c)" "allow_direct (proxy_manager c)"
       "\<forall>n cl. api_search e n cl query 1 = ApiReturns None
             \<or> (\<exists>r. api_search e n cl query 1 = ApiReturns (Some r) \<and> is_ban_response r)"
       "\<forall>n cl. make_request e n cl query 1 = Some html"
       "html \<noteq> []" "\<not> is_ban_html html"
       "parse_page e html = Some d" "page_results d = Inr rs" "length rs = 5"
       "page_total d = Inr t"
    have ne: "rs \<noteq> []" using h(10) by auto
    show "fst (search e query 1 mr c) = Inr (Some (web_response rs (total_of t 5) 1))
      \<and> map_option assets (data (web_response rs (total_of t 5) 1)) = Some rs
      \<and> mode (snd (search e query 1 mr c)) = WEB"
      using search_ban_then_web [OF h(1-9) ne h(11), of mr] h(10)
      by (simp add: web_response_def)
  qed
  show ?thesis using a b c by blast
qed

lemma mode_web_is_kept_example:
  "mode client_one_proxy = AUTO
   \<and> fst (stage1 env_ban_web ''port=80'' 1 client_one_proxy) = Inr Next
   \<and> fst (search env_ban_web ''port=80'' 1 3 client_one_proxy)
       = Inr (Some (web_response (replicate 5 asset_a) (IntTotal 5) 1))
   \<and> mode (snd (search env_ban_web ''port=80'' 1 3 client_one_proxy)) = WEB
   \<and> mode (searches env_ban_web [(''port=80'', 2, 3), (''port=80'', 3, 3)]
        (snd (search env_ban_web ''port=80'' 1 3 client_one_proxy))) = WEB"
proof -
  let ?c = "client_one_proxy"
  let ?d = "\<lparr>page_results = Inr (replicate 5 asset_a), page_total = Inr (Some (IntTotal 5))\<rparr>"
  have m: "mode ?c = AUTO" by (simp add: client_one_proxy_def init_client_def)
  have s1: "fst (stage1 env_ban_web ''port=80'' 1 ?c) = Inr Next"
    by (simp add: eval_defs client_one_proxy_def env_ban_web_def config_20_def)
  have hyp: "mode ?c = AUTO \<and> cursor_ok (proxy_manager ?c) \<and> allow_direct (proxy_manager ?c)
       \<and> (\<forall>n cl. api_search env_ban_web n cl ''port=80'' 1 = ApiReturns None
             \<or> (\<exists>r. api_search env_ban_web n cl ''port=80'' 1 = ApiReturns (Some r) \<and> is_ban_response r))
       \<and> (\<forall>n cl. make_request env_ban_web n cl ''port=80'' 1 = Some ''page'')
       \<and> ''page'' \<noteq> [] \<and> \<not> is_ban_html ''page''
       \<and> parse_page env_ban_web ''page'' = Some ?d \<and> page_results ?d = Inr (replicate 5 asset_a)
       \<and> length (replicate 5 asset_a) = 5
       \<and> page_total ?d = Inr (Some (IntTotal 5))"
    by (simp add: eval_defs client_one_proxy_def env_ban_web_def config_20_def cursor_ok_def)
  note t1 = mode_web_is_kept [of ?c env_ban_web "''port=80''" 1 3 "[]" "''page''" ?d "replicate 5 asset_a" "Some (IntTotal 5)"]
  have r1: "fst (search env_ban_web ''port=80'' 1 3 ?c)
       = Inr (Some (web_response (replicate 5 asset_a) (IntTotal 5) 1))"
    and r2: "mode (snd (search env_ban_web ''port=80'' 1 3 ?c)) = WEB"
    using t1 hyp m s1 by (simp_all add: total_of_def)
  note t2 = mode_web_is_kept [of "snd (search env_ban_web ''port=80'' 1 3 ?c)" env_ban_web "''port=80''" 1 3
    "[(''port=80'', 2, 3), (''port=80'', 3, 3)]" "''page''" ?d "replicate 5 asset_a" "Some (IntTotal 5)"]
  have r3: "mode (searches env_ban_web [(''port=80'', 2, 3), (''port=80'', 3, 3)]
        (snd (search env_ban_web ''port=80'' 1 3 ?c))) = WEB"
    using t2 r2 by blast
  show ?thesis using m s1 r1 r2 r3 by blast
qed

text \<open>
  C2. The mode part holds as the lemma above states it. The scenario fails at a page of
  five valid assets on which the lookup of the total raises: an engine in mode AUTO
  without proxies, the signed client returns none, the anonymous client returns the
  page of \<open>env_ban_web_list\<close>. Stage 2 counts the success, the lookup raises, the
  handler calls \<open>_proxy_failed\<close>, and \<open>search(query, 1)\<close> returns none instead of the
  five assets; the mode is WEB.
\<close>

theorem search_total_lookup_raises:
  "map_option page_results (parse_page env_ban_web_list ''page'') = Some (Inr (replicate 5 asset_a))
   \<and> fst (search env_ban_web_list ''port=80'' 1 3 (init_client config_20 [])) = Inr None
   \<and> success (snd (search env_ban_web_list ''port=80'' 1 3 (init_client config_20 []))) = 1
   \<and> failed_count (snd (search env_ban_web_list ''port=80'' 1 3 (init_client config_20 []))) = 2
   \<and> mode (snd (search env_ban_web_list ''port=80'' 1 3 (init_client config_20 []))) = WEB
   \<and> requests (snd (search env_ban_web_list ''port=80'' 1 3 (init_client config_20 [])))
       = [ApiRequest None ''port=80'' 1, WebRequest None ''port=80'' 1]"
  by (simp add: eval_defs env_ban_web_list_def config_20_def)

subsection \<open>search_all\<close>

lemma convert_asset_id: "convert_asset r = r"
  by (cases r) (simp add: convert_asset_def)

lemma map_convert_asset: "map convert_asset xs = xs"
  by (induction xs) (simp_all add: convert_asset_id)

text \<open>A pass of the loop whose call of \<open>search\<close> returned none.\<close>

lemma search_all_step_failed:
  assumes "search e query (page st) 3 c = (Inr None, c1)"
    and "get_proxy (proxy_manager c1) = (Inr g, pm1)"
  shows "search_all_step e query mcf st c =
     (Inr (if g = None \<and> \<not> allow_direct pm1 then Break (st\<lparr>consecutive_failures := consecutive_failures st + 1\<rparr>)
           else if mcf \<le> consecutive_failures st + 1 then Break (st\<lparr>consecutive_failures := consecutive_failures st + 1\<rparr>)
           else Continue (st\<lparr>consecutive_failures := consecutive_failures st + 1, page := page st + 1\<rparr>)),
      c1\<lparr>proxy_manager := pm1\<rparr>)"
  using assms by (simp add: search_all_step_def exn_bind_def on_pool_def Let_def)

text \<open>A pass of the loop whose call of \<open>search\<close> returned a response.\<close>

lemma search_all_step_found:
  assumes "search e query (page st) 3 c = (Inr (Some r), c1)"
  shows "search_all_step e query mcf st c =
     (let found = (case data r of Some d \<Rightarrow> assets d | None \<Rightarrow> []);
          st2 = st\<lparr>consecutive_failures := 0, all_results := all_results st @ found\<rparr>;
          next_page = Continue (st2\<lparr>page := page st + 1\<rparr>)
      in if end_count (config c1) \<le> int (length (all_results st2)) then
           (Inr (Break (st2\<lparr>all_results := take (nat (end_count (config c1))) (all_results st2)\<rparr>)), c1)
         else
           (case data r of
              None \<Rightarrow> (Inr next_page, c1)
            | Some d \<Rightarrow>
                (case reported_total d of
                   NoTotal \<Rightarrow> (Inr next_page, c1)
                 | IntTotal t \<Rightarrow>
                     if 0 < t \<and> t \<le> int (length (all_results st2))
                     then (Inr (Break st2), c1)
                     else (Inr next_page, c1)
                 | NonNumericTotal \<Rightarrow> (Inl TypeError, c1))))"
  using assms
  by (auto simp: search_all_step_def exn_bind_def Let_def map_convert_asset
           split: option.splits total_value.splits)

text \<open>
  A pass of the loop keeps the target count and keeps the number of results within it.
\<close>

lemma search_all_step_bound:
  assumes "search_all_step e query mcf st c = (Inr x, c')"
    and "length (all_results st) \<le> nat (end_count (config c))"
  shows "end_count (config c') = end_count (config c)
         \<and> length (all_results (exit_state x)) \<le> nat (end_count (config c))"
proof -
  obtain r c1 where s: "search e query (page st) 3 c = (r, c1)" by (cases "search e query (page st) 3 c")
  have ec: "end_count (config c1) = end_count (config c)"
    using search_end_count [of e query "page st" 3 c] s by simp
  show ?thesis
  proof (cases r)
    case (Inl err)
    then show ?thesis using assms(1) s by (simp add: search_all_step_def exn_bind_def)
  next
    case (Inr resp)
    show ?thesis
    proof (cases resp)
      case None
      obtain g pm1 where g: "get_proxy (proxy_manager c1) = (g, pm1)" by (cases "get_proxy (proxy_manager c1)")
      show ?thesis
      proof (cases g)
        case (Inl err)
        then show ?thesis using assms(1) s Inr None g
          by (simp add: search_all_step_def exn_bind_def on_pool_def Let_def)
      next
        case (Inr p)
        have "search e query (page st) 3 c = (Inr None, c1)" using s \<open>r = Inr resp\<close> None by simp
        from search_all_step_failed [OF this, of p pm1 mcf] g Inr assms ec
        show ?thesis by (auto split: if_splits)
      qed
    next
      case (Some a)
      have "search e query (page st) 3 c = (Inr (Some a), c1)" using s Inr Some by simp
      from search_all_step_found [OF this, of mcf] assms ec
      show ?thesis
        by (auto simp: Let_def split: if_splits option.splits total_value.splits)
    qed
  qed
qed

text \<open>The four ways through one unfolding of the loop.\<close>

lemma search_all_loop_done:
  "\<not> (int (length (all_results st)) < end_count (config c) \<and> page st \<le> max_pages) \<Longrightarrow>
   search_all_loop e query max_pages mcf st c = (Inr st, c)"
  by (subst search_all_loop.simps) auto

lemma search_all_loop_error:
  "int (length (all_results st)) < end_count (config c) \<Longrightarrow> page st \<le> max_pages \<Longrightarrow>
   search_all_step e query mcf st c = (Inl err, c1) \<Longrightarrow>
   search_all_loop e query max_pages mcf st c = (Inl err, c1)"
  by (subst search_all_loop.simps) simp

lemma search_all_loop_break:
  "int (length (all_results st)) < end_count (config c) \<Longrightarrow> page st \<le> max_pages \<Longrightarrow>
   search_all_step e query mcf st c = (Inr (Break st1), c1) \<Longrightarrow>
   search_all_loop e query max_pages mcf st c = (Inr st1, c1)"
  by (subst search_all_loop.simps) simp

lemma search_all_loop_continue:
  "int (length (all_results st)) < end_count (config c) \<Longrightarrow> page st \<le> max_pages \<Longrightarrow>
   search_all_step e query mcf st c = (Inr (Continue st1), c1) \<Longrightarrow>
   search_all_loop e query max_pages mcf st c = search_all_loop e query max_pages mcf st1 c1"
  by (subst search_all_loop.simps) simp

lemma search_all_loop_bound:
  "search_all_loop e query max_pages mcf st c = (Inr st', c') \<Longrightarrow>
   length (all_results st) \<le> nat (end_count (config c)) \<Longrightarrow>
   length (all_results st') \<le> nat (end_count (config c))"
proof (induction e query max_pages mcf st c rule: search_all_loop.induct)
  case (1 e query max_pages mcf st c)
  show ?case
  proof (cases "int (length (all_results st)) < end_count (config c) \<and> page st \<le> max_pages")
    case False
    then show ?thesis using "1.prems" search_all_loop_done [OF False] by simp
  next
    case True
    then have A: "int (length (all_results st)) < end_count (config c)" and B: "page st \<le> max_pages"
      by simp_all
    obtain x c1 where s: "search_all_step e query mcf st c = (x, c1)"
      by (cases "search_all_step e query mcf st c")
    show ?thesis
    proof (cases x)
      case (Inl err)
      then show ?thesis using "1.prems" search_all_loop_error [OF A B, of e query mcf err c1] s by simp
    next
      case (Inr ex)
      from search_all_step_bound [of e query mcf st c ex c1] s Inr "1.prems"(2)
      have b: "end_count (config c1) = end_count (config c)"
        "length (all_results (exit_state ex)) \<le> nat (end_count (config c))" by auto
      show ?thesis
      proof (cases ex)
        case (Break st1)
        then show ?thesis
          using "1.prems" b search_all_loop_break [OF A B, of e query mcf st1 c1] s Inr by simp
      next
        case (Continue st1)
        have eq: "search_all_loop e query max_pages mcf st c
                     = search_all_loop e query max_pages mcf st1 c1"
          using search_all_loop_continue [OF A B, of e query mcf st1 c1] s Inr Continue by simp
        have s': "(Inr (Continue st1), c1) = search_all_step e query mcf st c"
          using s Inr Continue by simp
        have "length (all_results st') \<le> nat (end_count (config c1))"
          using "1.IH" [OF True s' refl refl] eq "1.prems"(1) b Continue
          by auto
        then show ?thesis using b by simp
      qed
    qed
  qed
qed

lemma search_all_two_pages:
  assumes "end_count (config c0) = 20" and "2 \<le> max_pages"
    and "search e query 1 3 c0 = (Inr (Some r1), c1)" and "data r1 = Some d1"
    and "length (assets d1) = 15"
    and "reported_total d1 = NoTotal \<or> (\<exists>t. reported_total d1 = IntTotal t \<and> (t \<le> 0 \<or> 15 < t))"
    and "search e query 2 3 c1 = (Inr (Some r2), c2)" and "data r2 = Some d2"
    and "length (assets d2) = 10"
  shows "search_all e query max_pages mcf c0 = (Inr (take 20 (assets d1 @ assets d2)), c2)"
proof -
  let ?st0 = "\<lparr>all_results = [], page = 1, consecutive_failures = 0\<rparr>"
  let ?st1 = "\<lparr>all_results = assets d1, page = 2, consecutive_failures = 0\<rparr>"
  let ?st2 = "\<lparr>all_results = take 20 (assets d1 @ assets d2), page = 2, consecutive_failures = 0\<rparr>"
  have e1: "end_count (config c1) = 20"
    using search_end_count [of e query 1 3 c0] assms(1,3) by simp
  have e2: "end_count (config c2) = 20"
    using search_end_count [of e query 2 3 c1] assms(7) e1 by simp
  have s1: "search_all_step e query mcf ?st0 c0 = (Inr (Continue ?st1), c1)"
    using search_all_step_found [of e query ?st0 c0 r1 c1 mcf] assms(3,4,5,6) e1
    by (auto simp: Let_def)
  have s2: "search_all_step e query mcf ?st1 c1 = (Inr (Break ?st2), c2)"
    using search_all_step_found [of e query ?st1 c1 r2 c2 mcf] assms(7,8,9,5) e2
    by (auto simp: Let_def)
  have l2: "search_all_loop e query max_pages mcf ?st1 c1 = (Inr ?st2, c2)"
    using search_all_loop_break [of ?st1 c1 max_pages e query mcf ?st2 c2] s2 e1 assms(2,5) by simp
  have l1: "search_all_loop e query max_pages mcf ?st0 c0 = (Inr ?st2, c2)"
    using search_all_loop_continue [of ?st0 c0 max_pages e query mcf ?st1 c1] s1 l2 assms(1,2) by simp
  show ?thesis using l1 by (simp add: search_all_def exn_bind_def exn_return_def)
qed

lemma search_all_total_reached:
  assumes "end_count (config c0) = 20" and "1 \<le> max_pages"
    and "search e query 1 3 c0 = (Inr (Some r1), c1)" and "data r1 = Some d1"
    and "length (assets d1) = 15"
    and "reported_total d1 = IntTotal t" and "0 < t" and "t \<le> 15"
  shows "search_all e query max_pages mcf c0 = (Inr (assets d1), c1)"
proof -
  let ?st0 = "\<lparr>all_results = [], page = 1, consecutive_failures = 0\<rparr>"
  let ?st1 = "\<lparr>all_results = assets d1, page = 1, consecutive_failures = 0\<rparr>"
  have e1: "end_count (config c1) = 20"
    using search_end_count [of e query 1 3 c0] assms(1,3) by simp
  have s1: "search_all_step e query mcf ?st0 c0 = (Inr (Break ?st1), c1)"
    using search_all_step_found [of e query ?st0 c0 r1 c1 mcf] assms(3-8) e1
    by (auto simp: Let_def)
  have l1: "search_all_loop e query max_pages mcf ?st0 c0 = (Inr ?st1, c1)"
    using search_all_loop_break [of ?st0 c0 max_pages e query mcf ?st1 c1] s1 assms(1,2) by simp
  show ?thesis using l1 by (simp add: search_all_def exn_bind_def exn_return_def)
qed

lemma search_all_bound:
  assumes "fst (search_all e query max_pages mcf c) = Inr rs"
  shows "length rs \<le> nat (end_count (config c))"
proof -
  let ?st0 = "\<lparr>all_results = [], page = 1, consecutive_failures = 0\<rparr>"
  obtain x c' where l: "search_all_loop e query max_pages mcf ?st0 c = (x, c')"
    by (cases "search_all_loop e query max_pages mcf ?st0 c")
  show ?thesis
  proof (cases x)
    case (Inl err)
    then show ?thesis using assms l by (simp add: search_all_def exn_bind_def)
  next
    case (Inr st')
    then have "rs = all_results st'"
      using assms l by (simp add: search_all_def exn_bind_def exn_return_def)
    moreover have "length (all_results st') \<le> nat (end_count (config c))"
      using search_all_loop_bound [of e query max_pages mcf ?st0 c st' c'] l Inr by simp
    ultimately show ?thesis by simp
  qed
qed

lemma two_pages_first:
  "fst (search (env_two_pages t) ''port=80'' 1 3 (init_client config_20 []))
     = Inr (Some (web_response (replicate 15 asset_a) (total_of t 15) 1))"
  by (cases t) (simp_all add: eval_defs env_two_pages_def config_20_def total_of_def)

lemma two_pages_second:
  "fst (search (env_two_pages t) ''port=80'' 2 3
          (snd (search (env_two_pages t) ''port=80'' 1 3 (init_client config_20 []))))
     = Inr (Some (web_response (replicate 10 asset_a) (total_of t 10) 2))"
  by (cases t) (simp_all add: eval_defs env_two_pages_def config_20_def total_of_def)

lemma two_pages_end_count:
  "end_count (config (init_client config_20 [])) = 20"
  by (simp add: init_client_def config_20_def)

text \<open>
  What \<open>search_all\<close> does with two pages of 15 and of 10 results and a target count of
  20, by the \<open>total\<close> of the response that \<open>search\<close> returns for page 1. If that
  total is none, not positive or above 15, \<open>search_all\<close> returns the first 20 of the
  25 results, in order. If it is positive and at most 15, \<open>search_all\<close> returns the 15
  results of page 1 and does not ask for page 2. In every case the number of results
  returned is at most the target count (at most 0 when the target is negative).
\<close>

lemma search_all_truncates:
  "(end_count (config c0) = 20 \<and> 2 \<le> max_pages
      \<and> search e query 1 3 c0 = (Inr (Some r1), c1) \<and> data r1 = Some d1
      \<and> length (assets d1) = 15
      \<and> (reported_total d1 = NoTotal \<or> (\<exists>t. reported_total d1 = IntTotal t \<and> (t \<le> 0 \<or> 15 < t)))
      \<and> search e query 2 3 c1 = (Inr (Some r2), c2) \<and> data r2 = Some d2
      \<and> length (assets d2) = 10 \<longrightarrow>
     search_all e query max_pages mcf c0 = (Inr (take 20 (assets d1 @ assets d2)), c2)
     \<and> length (take 20 (assets d1 @ assets d2)) = 20)
   \<and> (end_count (config c0) = 20 \<and> 1 \<le> max_pages
      \<and> search e query 1 3 c0 = (Inr (Some r1), c1) \<and> data r1 = Some d1
      \<and> length (assets d1) = 15
      \<and> reported_total d1 = IntTotal t \<and> 0 < t \<and> t \<le> 15 \<longrightarrow>
     search_all e query max_pages mcf c0 = (Inr (assets d1), c1))
   \<and> (fst (search_all e query max_pages mcf c) = Inr rs \<longrightarrow>
       length rs \<le> nat (end_count (config c)))"
  using search_all_two_pages [of c0 max_pages e query r1 c1 d1 r2 c2 d2 mcf]
    search_all_total_reached [of c0 max_pages e query r1 c1 d1 t mcf]
    search_all_bound [of e query max_pages mcf c rs]
  by auto

lemma search_all_truncates_example:
  "fst (search_all (env_two_pages (Some (IntTotal 100))) ''port=80'' 10 3 (init_client config_20 []))
     = Inr (replicate 20 asset_a)
   \<and> fst (search_all (env_two_pages (Some (IntTotal 15))) ''port=80'' 10 3 (init_client config_20 []))
     = Inr (replicate 15 asset_a)
   \<and> length (replicate 20 asset_a) \<le> nat (end_count (config (init_client config_20 [])))"
proof -
  let ?c0 = "init_client config_20 []"
  let ?e = "env_two_pages (Some (IntTotal 100))"
  let ?e' = "env_two_pages (Some (IntTotal 15))"
  let ?d1 = "\<lparr>assets = replicate 15 asset_a, reported_total = IntTotal 100, page_number = 1\<rparr>"
  let ?d2 = "\<lparr>assets = replicate 10 asset_a, reported_total = IntTotal 100, page_number = 2\<rparr>"
  let ?d1' = "\<lparr>assets = replicate 15 asset_a, reported_total = IntTotal 15, page_number = 1\<rparr>"
  let ?r1 = "web_response (replicate 15 asset_a) (IntTotal 100) 1"
  let ?r2 = "web_response (replicate 10 asset_a) (IntTotal 100) 2"
  let ?r1' = "web_response (replicate 15 asset_a) (IntTotal 15) 1"
  let ?c1 = "snd (search ?e ''port=80'' 1 3 ?c0)"
  let ?c2 = "snd (search ?e ''port=80'' 2 3 ?c1)"
  let ?c1' = "snd (search ?e' ''port=80'' 1 3 ?c0)"
  have h1: "search ?e ''port=80'' 1 3 ?c0 = (Inr (Some ?r1), ?c1)"
    using two_pages_first [of "Some (IntTotal 100)"] by (simp add: prod_eq_iff total_of_def)
  have h2: "search ?e ''port=80'' 2 3 ?c1 = (Inr (Some ?r2), ?c2)"
    using two_pages_second [of "Some (IntTotal 100)"] by (simp add: prod_eq_iff total_of_def)
  have h1': "search ?e' ''port=80'' 1 3 ?c0 = (Inr (Some ?r1'), ?c1')"
    using two_pages_first [of "Some (IntTotal 15)"] by (simp add: prod_eq_iff total_of_def)
  have d: "data ?r1 = Some ?d1" "data ?r2 = Some ?d2" "data ?r1' = Some ?d1'"
    by (simp_all add: web_response_def)
  have a: "search_all ?e ''port=80'' 10 3 ?c0 = (Inr (take 20 (assets ?d1 @ assets ?d2)), ?c2)"
    using search_all_truncates [of ?c0 10 ?e "''port=80''" ?r1 ?c1 ?d1 ?r2 ?c2 ?d2 3 undefined undefined undefined]
      h1 h2 d two_pages_end_count by simp
  have b: "search_all ?e' ''port=80'' 10 3 ?c0 = (Inr (assets ?d1'), ?c1')"
    using search_all_truncates [of ?c0 10 ?e' "''port=80''" ?r1' ?c1' ?d1' undefined undefined undefined 3 15 undefined undefined]
      h1' d two_pages_end_count by simp
  have t: "take 20 (replicate 15 asset_a @ replicate 10 asset_a) = replicate 20 asset_a"
    by (simp add: replicate_add [symmetric])
  have c: "length (replicate 20 asset_a) \<le> nat (end_count (config ?c0))"
    using search_all_truncates [where e = ?e and query = "''port=80''" and max_pages = 10
          and mcf = 3 and c = ?c0 and rs = "replicate 20 asset_a", THEN conjunct2, THEN conjunct2] a t
    by simp
  show ?thesis using a b c t by simp
qed

text \<open>
  C6. The bound holds as \<open>search_all_bound\<close> states it. The scenario fails when page 1
  comes from the anonymous client without a total: an engine with a target count of 20
  and no proxies, the signed client returns none, the anonymous client returns 15
  assets for page 1 and would return 10 for page 2, neither page with the key
  \<open>total\<close>. Stage 2 of \<open>search\<close> then reports the number of results of the page, 15,
  as the total, and \<open>search_all\<close> takes the total for reached: it returns the 15
  results of page 1 and never asks for page 2. With the same two pages and a total of 0,
  which is what the signed client reports when the key is missing, it returns 20.
\<close>

theorem search_all_stops_at_fabricated_total:
  "fst (search (env_two_pages None) ''port=80'' 1 3 (init_client config_20 []))
     = Inr (Some (web_response (replicate 15 asset_a) (IntTotal 15) 1))
   \<and> fst (search (env_two_pages None) ''port=80'' 2 3
          (snd (search (env_two_pages None) ''port=80'' 1 3 (init_client config_20 []))))
     = Inr (Some (web_response (replicate 10 asset_a) (IntTotal 10) 2))
   \<and> fst (search_all (env_two_pages None) ''port=80'' 10 3 (init_client config_20 []))
     = Inr (replicate 15 asset_a)
   \<and> fst (search_all (env_two_pages (Some (IntTotal 0))) ''port=80'' 10 3 (init_client config_20 []))
     = Inr (replicate 20 asset_a)"
proof -
  let ?e = "env_two_pages None"
  let ?c0 = "init_client config_20 []"
  let ?r1 = "web_response (replicate 15 asset_a) (IntTotal 15) 1"
  have f1: "fst (search ?e ''port=80'' 1 3 ?c0) = Inr (Some ?r1)"
    using two_pages_first [of None] by (simp add: total_of_def)
  have f2: "fst (search ?e ''port=80'' 2 3 (snd (search ?e ''port=80'' 1 3 ?c0)))
     = Inr (Some (web_response (replicate 10 asset_a) (IntTotal 10) 2))"
    using two_pages_second [of None] by (simp add: total_of_def)
  have h: "search ?e ''port=80'' 1 3 ?c0 = (Inr (Some ?r1), snd (search ?e ''port=80'' 1 3 ?c0))"
    using f1 by (simp add: prod_eq_iff)
  have a: "search_all ?e ''port=80'' 10 3 ?c0
      = (Inr (assets \<lparr>assets = replicate 15 asset_a, reported_total = IntTotal 15, page_number = 1\<rparr>),
         snd (search ?e ''port=80'' 1 3 ?c0))"
    by (rule search_all_total_reached [OF two_pages_end_count _ h, where t = 15])
       (simp_all add: web_response_def)
  let ?z = "env_two_pages (Some (IntTotal 0))"
  let ?d1 = "\<lparr>assets = replicate 15 asset_a, reported_total = IntTotal 0, page_number = 1\<rparr>"
  let ?d2 = "\<lparr>assets = replicate 10 asset_a, reported_total = IntTotal 0, page_number = 2\<rparr>"
  let ?c1 = "snd (search ?z ''port=80'' 1 3 ?c0)"
  let ?c2 = "snd (search ?z ''port=80'' 2 3 ?c1)"
  have z1: "search ?z ''port=80'' 1 3 ?c0
      = (Inr (Some (web_response (replicate 15 asset_a) (IntTotal 0) 1)), ?c1)"
    using two_pages_first [of "Some (IntTotal 0)"] by (simp add: prod_eq_iff total_of_def)
  have z2: "search ?z ''port=80'' 2 3 ?c1
      = (Inr (Some (web_response (replicate 10 asset_a) (IntTotal 0) 2)), ?c2)"
    using two_pages_second [of "Some (IntTotal 0)"] by (simp add: prod_eq_iff total_of_def)
  have d: "data (web_response (replicate 15 asset_a) (IntTotal 0) 1) = Some ?d1"
    "data (web_response (replicate 10 asset_a) (IntTotal 0) 2) = Some ?d2"
    by (simp_all add: web_response_def)
  have b: "search_all ?z ''port=80'' 10 3 ?c0 = (Inr (take 20 (assets ?d1 @ assets ?d2)), ?c2)"
    by (rule search_all_two_pages [OF two_pages_end_count _ z1 d(1) _ _ z2 d(2)]) simp_all
  have t: "take 20 (replicate 15 asset_a @ replicate 10 asset_a) = replicate 20 asset_a"
    by (simp add: replicate_add [symmetric])
  show ?thesis using a b t f1 f2 by simp
qed

text \<open>Three passes from a state without failures, each with a call that returns none.\<close>

lemma search_all_loop_three_failures:
  assumes "int (length (all_results st)) < end_count (config c0)" and "page st + 2 \<le> max_pages"
    and "consecutive_failures st = 0"
    and "search e query (page st) 3 c0 = (Inr None, c1)"
    and "get_proxy (proxy_manager c1) = (Inr g1, pm1)" and "g1 \<noteq> None \<or> allow_direct pm1"
    and "search e query (page st + 1) 3 (c1\<lparr>proxy_manager := pm1\<rparr>) = (Inr None, c2)"
    and "get_proxy (proxy_manager c2) = (Inr g2, pm2)" and "g2 \<noteq> None \<or> allow_direct pm2"
    and "search e query (page st + 2) 3 (c2\<lparr>proxy_manager := pm2\<rparr>) = (Inr None, c3)"
    and "get_proxy (proxy_manager c3) = (Inr g3, pm3)"
  shows "search_all_loop e query max_pages 3 st c0
           = (Inr (st\<lparr>page := page st + 2, consecutive_failures := 3\<rparr>), c3\<lparr>proxy_manager := pm3\<rparr>)"
proof -
  let ?st1 = "st\<lparr>consecutive_failures := 1, page := page st + 1\<rparr>"
  let ?st2 = "st\<lparr>consecutive_failures := 2, page := page st + 2\<rparr>"
  let ?st3 = "st\<lparr>page := page st + 2, consecutive_failures := 3\<rparr>"
  let ?c1 = "c1\<lparr>proxy_manager := pm1\<rparr>"
  let ?c2 = "c2\<lparr>proxy_manager := pm2\<rparr>"
  let ?c3 = "c3\<lparr>proxy_manager := pm3\<rparr>"
  have e1: "end_count (config ?c1) = end_count (config c0)"
    using search_end_count [of e query "page st" 3 c0] assms(4) by simp
  have e2: "end_count (config ?c2) = end_count (config c0)"
    using search_end_count [of e query "page st + 1" 3 ?c1] assms(7) e1 by simp
  have s1: "search_all_step e query 3 st c0 = (Inr (Continue ?st1), ?c1)"
    using search_all_step_failed [of e query st c0 c1 g1 pm1 3] assms(3,4,5,6) by auto
  have s2: "search_all_step e query 3 ?st1 ?c1 = (Inr (Continue ?st2), ?c2)"
    using search_all_step_failed [of e query ?st1 ?c1 c2 g2 pm2 3] assms(7,8,9) by auto
  have s3: "search_all_step e query 3 ?st2 ?c2 = (Inr (Break ?st3), ?c3)"
    using search_all_step_failed [of e query ?st2 ?c2 c3 g3 pm3 3] assms(10,11) by auto
  have l3: "search_all_loop e query max_pages 3 ?st2 ?c2 = (Inr ?st3, ?c3)"
    using search_all_loop_break [of ?st2 ?c2 max_pages e query 3 ?st3 ?c3] s3 e2 assms(1,2) by simp
  have l2: "search_all_loop e query max_pages 3 ?st1 ?c1 = (Inr ?st3, ?c3)"
    using search_all_loop_continue [of ?st1 ?c1 max_pages e query 3 ?st2 ?c2] s2 l3 e1 assms(1,2) by simp
  show ?thesis
    using search_all_loop_continue [of st c0 max_pages e query 3 ?st1 ?c1] s1 l2 assms(1,2) by simp
qed

lemma search_all_step_resets:
  assumes "search e query (page st) 3 c = (Inr (Some r), c')"
  shows "case fst (search_all_step e query mcf st c) of
           Inl err \<Rightarrow> True
         | Inr (Break st') \<Rightarrow> consecutive_failures st' = 0
         | Inr (Continue st') \<Rightarrow> consecutive_failures st' = 0"
  using search_all_step_found [OF assms, of mcf]
  by (auto simp: Let_def split: option.splits total_value.splits)

lemma first_page_only_page1:
  "search env_first_page_only ''port=80'' 1 3 (init_client config_20 [])
     = (Inr (Some (web_response (replicate 5 asset_a) (IntTotal 100) 1)), after_first_page)"
  by (simp add: eval_defs env_first_page_only_def config_20_def after_first_page_def)

lemma first_page_only_later:
  assumes "pg \<noteq> 1" and "proxy_manager c = init_proxy_manager True" and "mode c = WEB"
    and "proxy (config c) = None" and "cached_web_client c = Some None"
  shows "search env_first_page_only query pg 3 c
     = (Inr None, c\<lparr>total := total c + 1, requests := requests c @ [WebRequest None query pg]\<rparr>)"
  using assms
  by (cases c) (simp add: eval_defs env_first_page_only_def)

text \<open>
  C5, as the code has it. With the default threshold 3, let the loop stand at a state
  without consecutive failures, below the target count and at least two pages before
  the page limit. If the calls of \<open>search\<close> for this page and the next two each return
  none (and the test of the exhausted pool after the first and the second lets the
  loop go on), the loop is left after the third of these pages with three consecutive
  failures and with the results accumulated before; \<open>search_all\<close> returns the empty
  sequence when these are pages 1, 2 and 3. And whenever the call of \<open>search\<close> of a
  pass returns a response, the pass ends with the counter of consecutive failures at 0.
\<close>

theorem three_failed_pages_stop:
  assumes "int (length (all_results st)) < end_count (config c0)" and "page st + 2 \<le> max_pages"
    and "consecutive_failures st = 0"
    and "search e query (page st) 3 c0 = (Inr None, c1)"
    and "get_proxy (proxy_manager c1) = (Inr g1, pm1)" and "g1 \<noteq> None \<or> allow_direct pm1"
    and "search e query (page st + 1) 3 (c1\<lparr>proxy_manager := pm1\<rparr>) = (Inr None, c2)"
    and "get_proxy (proxy_manager c2) = (Inr g2, pm2)" and "g2 \<noteq> None \<or> allow_direct pm2"
    and "search e query (page st + 2) 3 (c2\<lparr>proxy_manager := pm2\<rparr>) = (Inr None, c3)"
    and "get_proxy (proxy_manager c3) = (Inr g3, pm3)"
  shows "search_all_loop e query max_pages 3 st c0
           = (Inr (st\<lparr>page := page st + 2, consecutive_failures := 3\<rparr>), c3\<lparr>proxy_manager := pm3\<rparr>)
         \<and> (st = \<lparr>all_results = [], page = 1, consecutive_failures = 0\<rparr> \<longrightarrow>
              search_all e query max_pages 3 c0 = (Inr [], c3\<lparr>proxy_manager := pm3\<rparr>))
         \<and> (\<forall>st' c r c' mcf. search e query (page st') 3 c = (Inr (Some r), c') \<longrightarrow>
               (case fst (search_all_step e query mcf st' c) of
                  Inl err \<Rightarrow> True
                | Inr (Break st'') \<Rightarrow> consecutive_failures st'' = 0
                | Inr (Continue st'') \<Rightarrow> consecutive_failures st'' = 0))"
proof -
  note l = search_all_loop_three_failures [OF assms]
  have "st = \<lparr>all_results = [], page = 1, consecutive_failures = 0\<rparr> \<longrightarrow>
              search_all e query max_pages 3 c0 = (Inr [], c3\<lparr>proxy_manager := pm3\<rparr>)"
    using l by (auto simp: search_all_def exn_bind_def exn_return_def)
  then show ?thesis using l search_all_step_resets by blast
qed

theorem three_failed_pages_stop_witness:
  "fst (search env_both_empty ''port=80'' 1 3 (init_client config_100 [])) = Inr None
   \<and> fst (search_all_loop env_both_empty ''port=80'' 10 3
          \<lparr>all_results = [], page = 1, consecutive_failures = 0\<rparr> (init_client config_100 []))
       = Inr \<lparr>all_results = [], page = 3, consecutive_failures = 3\<rparr>
   \<and> fst (search_all env_both_empty ''port=80'' 10 3 (init_client config_100 [])) = Inr []
   \<and> fst (search_all_step env_api_one ''port=80'' 3
          \<lparr>all_results = [], page = 1, consecutive_failures = 2\<rparr> (init_client config_100 []))
       = Inr (Break \<lparr>all_results = [asset_a], page = 1, consecutive_failures = 0\<rparr>)"
proof -
  let ?e = env_both_empty
  let ?q = "''port=80''"
  let ?pm = "init_proxy_manager True"
  let ?st0 = "\<lparr>all_results = [], page = 1, consecutive_failures = 0\<rparr>"
  define c0 where "c0 = init_client config_100 []"
  define c1 where "c1 = snd (search ?e ?q 1 3 c0)"
  define c2 where "c2 = snd (search ?e ?q 2 3 c1)"
  define c3 where "c3 = snd (search ?e ?q 3 3 c2)"
  have f1: "fst (search ?e ?q 1 3 c0) = Inr None" and p1: "proxy_manager c1 = ?pm"
    unfolding c1_def c0_def
    by (simp_all add: eval_defs env_both_empty_def config_100_def)
  have f2: "fst (search ?e ?q 2 3 c1) = Inr None" and p2: "proxy_manager c2 = ?pm"
    unfolding c2_def c1_def c0_def
    by (simp_all add: eval_defs env_both_empty_def config_100_def)
  have f3: "fst (search ?e ?q 3 3 c2) = Inr None" and p3: "proxy_manager c3 = ?pm"
    unfolding c3_def c2_def c1_def c0_def
    by (simp_all add: eval_defs env_both_empty_def config_100_def)
  have g: "get_proxy ?pm = (Inr None, ?pm)" "allow_direct ?pm"
    by (simp_all add: get_proxy_def init_proxy_manager_def)
  have h0: "int (length (all_results ?st0)) < end_count (config c0)"
    by (simp add: c0_def init_client_def config_100_def)
  have hp: "page ?st0 + 2 \<le> 10" "consecutive_failures ?st0 = 0" by simp_all
  have h1: "search ?e ?q (page ?st0) 3 c0 = (Inr None, c1)" using f1 by (simp add: c1_def prod_eq_iff)
  have u1: "c1\<lparr>proxy_manager := ?pm\<rparr> = c1" using p1 by simp
  have h2: "search ?e ?q (page ?st0 + 1) 3 (c1\<lparr>proxy_manager := ?pm\<rparr>) = (Inr None, c2)"
    using f2 u1 by (simp add: c2_def prod_eq_iff)
  have u2: "c2\<lparr>proxy_manager := ?pm\<rparr> = c2" using p2 by simp
  have h3: "search ?e ?q (page ?st0 + 2) 3 (c2\<lparr>proxy_manager := ?pm\<rparr>) = (Inr None, c3)"
    using f3 u2 by (simp add: c3_def prod_eq_iff)
  have g1: "get_proxy (proxy_manager c1) = (Inr None, ?pm)" using g p1 by simp
  have g2: "get_proxy (proxy_manager c2) = (Inr None, ?pm)" using g p2 by simp
  have g3: "get_proxy (proxy_manager c3) = (Inr None, ?pm)" using g p3 by simp
  have d: "None \<noteq> (None :: string option) \<or> allow_direct ?pm" using g(2) by simp
  have step: "fst (search_all_step env_api_one ?q 3
          \<lparr>all_results = [], page = 1, consecutive_failures = 2\<rparr> c0)
       = Inr (Break \<lparr>all_results = [asset_a], page = 1, consecutive_failures = 0\<rparr>)"
    unfolding c0_def
    by (simp add: search_all_step_def eval_defs env_api_one_def config_100_def convert_asset_def asset_a_def)
  note t = three_failed_pages_stop [OF h0 hp h1 g1 d h2 g2 d h3 g3]
  from t f1 step show ?thesis by (simp add: c0_def)
qed

text \<open>
  C5 as stated fails: page 1 yields five results, the calls for pages 2, 3 and 4 return
  none, and \<open>search_all\<close> returns the five results, not the empty sequence.
\<close>

theorem three_failed_pages_stop_counterexample:
  "fst (search_all env_first_page_only ''port=80'' 10 3 (init_client config_20 []))
     = Inr (replicate 5 asset_a)
   \<and> requests (snd (search_all env_first_page_only ''port=80'' 10 3 (init_client config_20 [])))
     = [ApiRequest None ''port=80'' 1, WebRequest None ''port=80'' 1, WebRequest None ''port=80'' 2,
        WebRequest None ''port=80'' 3, WebRequest None ''port=80'' 4]
   \<and> success (snd (search_all env_first_page_only ''port=80'' 10 3 (init_client config_20 []))) = 1"
proof -
  let ?e = env_first_page_only
  let ?q = "''port=80''"
  let ?pm = "init_proxy_manager True"
  let ?c0 = "init_client config_20 []"
  let ?st0 = "\<lparr>all_results = [], page = 1, consecutive_failures = 0\<rparr>"
  let ?st1 = "\<lparr>all_results = replicate 5 asset_a, page = 2, consecutive_failures = 0\<rparr>"
  define c1 where "c1 = after_first_page"
  define c2 where "c2 = c1\<lparr>total := total c1 + 1, requests := requests c1 @ [WebRequest None ?q 2]\<rparr>"
  define c3 where "c3 = c2\<lparr>total := total c2 + 1, requests := requests c2 @ [WebRequest None ?q 3]\<rparr>"
  define c4 where "c4 = c3\<lparr>total := total c3 + 1, requests := requests c3 @ [WebRequest None ?q 4]\<rparr>"
  have i1: "proxy_manager c1 = ?pm" "mode c1 = WEB" "proxy (config c1) = None"
    "cached_web_client c1 = Some None" "end_count (config c1) = 20"
    by (simp_all add: c1_def after_first_page_def init_client_def config_20_def)
  have i2: "proxy_manager c2 = ?pm" "mode c2 = WEB" "proxy (config c2) = None"
    "cached_web_client c2 = Some None"
    using i1 by (simp_all add: c2_def)
  have i3: "proxy_manager c3 = ?pm" "mode c3 = WEB" "proxy (config c3) = None"
    "cached_web_client c3 = Some None"
    using i2 by (simp_all add: c3_def)
  have i4: "proxy_manager c4 = ?pm" using i3 by (simp add: c4_def)
  have g: "get_proxy ?pm = (Inr None, ?pm)" "allow_direct ?pm"
    by (simp_all add: get_proxy_def init_proxy_manager_def)
  have u: "c1\<lparr>proxy_manager := ?pm\<rparr> = c1" "c2\<lparr>proxy_manager := ?pm\<rparr> = c2"
    "c3\<lparr>proxy_manager := ?pm\<rparr> = c3" "c4\<lparr>proxy_manager := ?pm\<rparr> = c4"
    using i1(1) i2(1) i3(1) i4 by simp_all
  have h1: "search ?e ?q (page ?st0) 3 ?c0
      = (Inr (Some (web_response (replicate 5 asset_a) (IntTotal 100) 1)), c1)"
    using first_page_only_page1 by (simp add: c1_def)
  have s1: "search_all_step ?e ?q 3 ?st0 ?c0 = (Inr (Continue ?st1), c1)"
    using search_all_step_found [OF h1, of 3] i1(5) by (simp add: web_response_def Let_def)
  have h2: "search ?e ?q (page ?st1) 3 c1 = (Inr None, c2)"
    using first_page_only_later [of 2 c1 ?q] i1 by (simp add: c2_def)
  have h3: "search ?e ?q (page ?st1 + 1) 3 (c2\<lparr>proxy_manager := ?pm\<rparr>) = (Inr None, c3)"
    unfolding u using first_page_only_later [of 3 c2 ?q] i2 by (simp add: c3_def)
  have h4: "search ?e ?q (page ?st1 + 2) 3 (c3\<lparr>proxy_manager := ?pm\<rparr>) = (Inr None, c4)"
    unfolding u using first_page_only_later [of 4 c3 ?q] i3 by (simp add: c4_def)
  have d: "None \<noteq> (None :: string option) \<or> allow_direct ?pm" using g(2) by simp
  have l: "search_all_loop ?e ?q 10 3 ?st1 c1
      = (Inr (?st1\<lparr>page := page ?st1 + 2, consecutive_failures := 3\<rparr>), c4\<lparr>proxy_manager := ?pm\<rparr>)"
    by (rule search_all_loop_three_failures [OF _ _ _ h2 _ d h3 _ d h4])
       (simp_all add: i1 i2 i3 i4 g)
  have "search_all_loop ?e ?q 10 3 ?st0 ?c0 = (Inr (?st1\<lparr>page := 4, consecutive_failures := 3\<rparr>), c4)"
    using search_all_loop_continue [of ?st0 ?c0 10 ?e ?q 3 ?st1 c1] s1 l
    unfolding u by (simp add: init_client_def config_20_def)
  then have "search_all ?e ?q 10 3 ?c0 = (Inr (replicate 5 asset_a), c4)"
    by (simp add: search_all_def exn_bind_def exn_return_def)
  then show ?thesis
    by (simp add: c4_def c3_def c2_def c1_def after_first_page_def)
qed

end
